theory Spec2Isabelle
  imports Main "HOL-Library.Monad_Syntax" "HOL-Library.AList"
begin

section \<open>Python values\<close>

text \<open>
  The parsers of \<^verbatim>\<open>tsn_config_parser\<close> turn XML and YAML into nested Python
  dictionaries, lists and scalars. A dictionary is an association list in insertion
  order with string keys; strings are lists of characters with code points below 256.
  YAML floating-point scalars have no counterpart in this type.
  A Python exception is the result \<open>None\<close> of a function of type \<open>_ option\<close>.
\<close>

datatype node =
    NNone
  | NBool bool
  | NInt int
  | NStr string
  | NList "node list"
  | NDict "(string \<times> node) list"

type_synonym pydict = "(string \<times> node) list"

text \<open>Truth value of an object in a condition (\<^verbatim>\<open>if x\<close>, \<^verbatim>\<open>not x\<close>).\<close>

fun truthy :: "node \<Rightarrow> bool" where
  "truthy NNone = False"
| "truthy (NBool b) = b"
| "truthy (NInt i) = (i \<noteq> 0)"
| "truthy (NStr s) = (s \<noteq> [])"
| "truthy (NList xs) = (xs \<noteq> [])"
| "truthy (NDict kvs) = (kvs \<noteq> [])"

subsection \<open>Numbers as text\<close>

definition dec_digit :: "nat \<Rightarrow> char" where
  "dec_digit d = ''0123456789'' ! d"

definition hex_digit_lower :: "nat \<Rightarrow> char" where
  "hex_digit_lower d = ''0123456789abcdef'' ! d"

definition hex_digit_upper :: "nat \<Rightarrow> char" where
  "hex_digit_upper d = ''0123456789ABCDEF'' ! d"

fun str_nat :: "nat \<Rightarrow> string" where
  "str_nat n = (if n < 10 then [dec_digit n] else str_nat (n div 10) @ [dec_digit (n mod 10)])"

fun hex_nat_lower :: "nat \<Rightarrow> string" where
  "hex_nat_lower n =
     (if n < 16 then [hex_digit_lower n]
      else hex_nat_lower (n div 16) @ [hex_digit_lower (n mod 16)])"

fun hex_nat_upper :: "nat \<Rightarrow> string" where
  "hex_nat_upper n =
     (if n < 16 then [hex_digit_upper n]
      else hex_nat_upper (n div 16) @ [hex_digit_upper (n mod 16)])"

declare str_nat.simps [simp del]
declare hex_nat_lower.simps [simp del]
declare hex_nat_upper.simps [simp del]

text \<open>\<^verbatim>\<open>str(i)\<close> of an integer.\<close>

definition py_str_int :: "int \<Rightarrow> string" where
  "py_str_int i = (if i < 0 then ''-'' @ str_nat (nat (- i)) else str_nat (nat i))"

text \<open>\<^verbatim>\<open>hex(i)\<close>.\<close>

definition py_hex :: "int \<Rightarrow> string" where
  "py_hex i = (if i < 0 then ''-0x'' @ hex_nat_lower (nat (- i)) else ''0x'' @ hex_nat_lower (nat i))"

text \<open>
  The format specification \<^verbatim>\<open>02X\<close> of an integer: upper-case hexadecimal, padded
  with zeros after the sign to a width of at least two characters.
\<close>

definition format_02X :: "int \<Rightarrow> string" where
  "format_02X i =
     (if i < 0 then ''-'' @ hex_nat_upper (nat (- i))
      else (let h = hex_nat_upper (nat i) in if length h < 2 then ''0'' @ h else h))"

subsection \<open>Strings\<close>

text \<open>
  \<^verbatim>\<open>str.isspace\<close> for one character: the white space of Unicode below code
  point 256.
\<close>

definition is_space :: "char \<Rightarrow> bool" where
  "is_space c =
     (let n = (of_char c :: nat)
      in (9 \<le> n \<and> n \<le> 13) \<or> (28 \<le> n \<and> n \<le> 32) \<or> n = 133 \<or> n = 160)"

text \<open>\<^verbatim>\<open>s.strip()\<close>.\<close>

definition strip :: "string \<Rightarrow> string" where
  "strip s = rev (dropWhile is_space (rev (dropWhile is_space s)))"

text \<open>\<^verbatim>\<open>s.lower()\<close>: the letters A-Z and the upper-case letters of Latin-1.\<close>

definition lower_char :: "char \<Rightarrow> char" where
  "lower_char c =
     (let n = (of_char c :: nat)
      in if (65 \<le> n \<and> n \<le> 90) \<or> (192 \<le> n \<and> n \<le> 214) \<or> (216 \<le> n \<and> n \<le> 222)
         then char_of (n + 32) else c)"

definition lower :: "string \<Rightarrow> string" where
  "lower s = map lower_char s"

text \<open>\<^verbatim>\<open>s.replace("-", ":")\<close>: both strings are one character long.\<close>

definition replace_hyphen_colon :: "string \<Rightarrow> string" where
  "replace_hyphen_colon s = map (\<lambda>c. if c = CHR ''-'' then CHR '':'' else c) s"

text \<open>\<^verbatim>\<open>sub in s\<close> for two strings.\<close>

fun is_substring :: "string \<Rightarrow> string \<Rightarrow> bool" where
  "is_substring sub [] = (sub = [])"
| "is_substring sub (c # cs) = (take (length sub) (c # cs) = sub \<or> is_substring sub cs)"

text \<open>\<^verbatim>\<open>sep.join(parts)\<close>.\<close>

fun join_str :: "string \<Rightarrow> string list \<Rightarrow> string" where
  "join_str sep [] = []"
| "join_str sep [x] = x"
| "join_str sep (x # y # ys) = x @ sep @ join_str sep (y # ys)"

text \<open>
  \<^verbatim>\<open>repr(s)\<close> of a string: double quotes only when the string holds a single
  quote and no double quote; the quote and the backslash are escaped, tab, newline and
  carriage return have their letters, every other non-printable character is
  \<^verbatim>\<open>\xhh\<close>.
\<close>

definition hex2_lower :: "nat \<Rightarrow> string" where
  "hex2_lower n = [hex_digit_lower (n div 16), hex_digit_lower (n mod 16)]"

definition repr_char :: "char \<Rightarrow> char \<Rightarrow> string" where
  "repr_char quote c =
     (let n = (of_char c :: nat)
      in if c = quote \<or> c = CHR 0x5C then [CHR 0x5C, c]
         else if n = 9 then [CHR 0x5C, CHR ''t'']
         else if n = 10 then [CHR 0x5C, CHR ''n'']
         else if n = 13 then [CHR 0x5C, CHR ''r'']
         else if n < 32 \<or> n = 127 then [CHR 0x5C, CHR ''x''] @ hex2_lower n
         else if n < 127 then [c]
         else if n \<le> 160 \<or> n = 173 then [CHR 0x5C, CHR ''x''] @ hex2_lower n
         else [c])"

definition repr_str :: "string \<Rightarrow> string" where
  "repr_str s =
     (let quote = (if CHR 0x27 \<in> set s \<and> CHR 0x22 \<notin> set s then CHR 0x22 else CHR 0x27)
      in [quote] @ concat (map (repr_char quote) s) @ [quote])"

text \<open>\<^verbatim>\<open>repr(x)\<close> and \<^verbatim>\<open>str(x)\<close>; an f-string field \<^verbatim>\<open>{x}\<close> is \<^verbatim>\<open>str(x)\<close>.\<close>

primrec py_repr :: "node \<Rightarrow> string" where
  "py_repr NNone = ''None''"
| "py_repr (NBool b) = (if b then ''True'' else ''False'')"
| "py_repr (NInt i) = py_str_int i"
| "py_repr (NStr s) = repr_str s"
| "py_repr (NList xs) = ''['' @ join_str '', '' (map py_repr xs) @ '']''"
| "py_repr (NDict kvs) =
     ''{'' @ join_str '', '' (map (\<lambda>(k, r). repr_str k @ '': '' @ r) (map (map_prod id py_repr) kvs))
     @ ''}''"

definition py_str :: "node \<Rightarrow> string" where
  "py_str x = (case x of NStr s \<Rightarrow> s | _ \<Rightarrow> py_repr x)"

text \<open>
  \<^verbatim>\<open>int(x)\<close>. Of a string, \<^verbatim>\<open>int\<close> skips white space at both ends,
  reads one optional sign and then a run of decimal digits in which single underscores
  may separate digits; anything else is a ValueError, and so is a text of more digits
  than the interpreter's limit \<^verbatim>\<open>sys.get_int_max_str_digits()\<close>. The white space
  skipped is not that of \<^verbatim>\<open>str.strip\<close>: the separators U+001C to U+001F are left
  in place and make the text invalid. \<^verbatim>\<open>None\<close>, lists and dictionaries are a
  TypeError.
\<close>

definition is_int_space :: "char \<Rightarrow> bool" where
  "is_int_space c =
     (let n = (of_char c :: nat)
      in (9 \<le> n \<and> n \<le> 13) \<or> n = 32 \<or> n = 133 \<or> n = 160)"

definition int_max_str_digits :: nat where
  "int_max_str_digits = 4300"

definition is_digit :: "char \<Rightarrow> bool" where
  "is_digit c \<longleftrightarrow> c \<in> set ''0123456789''"

definition digit_val :: "char \<Rightarrow> nat" where
  "digit_val c = of_char c - 48"

fun parse_digits :: "nat \<Rightarrow> bool \<Rightarrow> string \<Rightarrow> nat option" where
  "parse_digits acc prev_digit [] = (if prev_digit then Some acc else None)"
| "parse_digits acc prev_digit (c # cs) =
     (if is_digit c then parse_digits (10 * acc + digit_val c) True cs
      else if c = CHR ''_'' \<and> prev_digit then parse_digits acc False cs
      else None)"

definition parse_number :: "string \<Rightarrow> nat option" where
  "parse_number body =
     (case parse_digits 0 False body of
        None \<Rightarrow> None
      | Some n \<Rightarrow> if int_max_str_digits < length (filter is_digit body) then None else Some n)"

definition int_of_str :: "string \<Rightarrow> int option" where
  "int_of_str s =
     (case rev (dropWhile is_int_space (rev (dropWhile is_int_space s))) of
        [] \<Rightarrow> None
      | c # cs \<Rightarrow>
          if c = CHR ''-'' then map_option (\<lambda>n. - int n) (parse_number cs)
          else if c = CHR ''+'' then map_option int (parse_number cs)
          else map_option int (parse_number (c # cs)))"

fun py_int :: "node \<Rightarrow> int option" where
  "py_int (NInt i) = Some i"
| "py_int (NBool b) = Some (if b then 1 else 0)"
| "py_int (NStr s) = int_of_str s"
| "py_int NNone = None"
| "py_int (NList xs) = None"
| "py_int (NDict kvs) = None"

subsection \<open>Dictionaries, lists and loops\<close>

text \<open>
  \<^verbatim>\<open>obj.get(key, default)\<close>: only a dictionary has the method, on any other
  object the call is an AttributeError.
\<close>

definition py_get :: "node \<Rightarrow> string \<Rightarrow> node \<Rightarrow> node option" where
  "py_get obj key dflt =
     (case obj of
        NDict kvs \<Rightarrow> Some (case map_of kvs key of Some v \<Rightarrow> v | None \<Rightarrow> dflt)
      | _ \<Rightarrow> None)"

text \<open>\<^verbatim>\<open>d.get(key, default)\<close> on an object known to be a dictionary.\<close>

definition dict_get :: "pydict \<Rightarrow> string \<Rightarrow> node \<Rightarrow> node" where
  "dict_get d key dflt = (case map_of d key of Some v \<Rightarrow> v | None \<Rightarrow> dflt)"

text \<open>
  \<^verbatim>\<open>key in obj\<close> for a string \<open>key\<close>: a key of a dictionary, a substring of a
  string, an element of a list; a TypeError for \<^verbatim>\<open>None\<close>, booleans and integers.
\<close>

definition py_contains :: "string \<Rightarrow> node \<Rightarrow> bool option" where
  "py_contains key obj =
     (case obj of
        NDict kvs \<Rightarrow> Some (map_of kvs key \<noteq> None)
      | NStr s \<Rightarrow> Some (is_substring key s)
      | NList xs \<Rightarrow> Some (NStr key \<in> set xs)
      | _ \<Rightarrow> None)"

text \<open>
  \<^verbatim>\<open>obj[key]\<close> for a string \<open>key\<close>: a KeyError for a dictionary without the key,
  a TypeError for every object that is not a dictionary.
\<close>

definition py_index :: "node \<Rightarrow> string \<Rightarrow> node option" where
  "py_index obj key = (case obj of NDict kvs \<Rightarrow> map_of kvs key | _ \<Rightarrow> None)"

text \<open>\<^verbatim>\<open>if not isinstance(x, list): x = [x]\<close>.\<close>

definition as_list :: "node \<Rightarrow> node list" where
  "as_list x = (case x of NList xs \<Rightarrow> xs | _ \<Rightarrow> [x])"

text \<open>
  A \<^verbatim>\<open>for\<close> loop whose body updates the loop state and may raise: the first
  exception ends the loop and the function.
\<close>

fun foldM :: "('a \<Rightarrow> 's \<Rightarrow> 's option) \<Rightarrow> 'a list \<Rightarrow> 's \<Rightarrow> 's option" where
  "foldM f [] s = Some s"
| "foldM f (x # xs) s = (case f x s of None \<Rightarrow> None | Some s' \<Rightarrow> foldM f xs s')"

section \<open>Semantic extraction (GE\_dictionary.py)\<close>

subsection \<open>Recursive key search\<close>

text \<open>
  \<^verbatim>\<open>_find_key\<close>: the value of the first occurrence of the key, depth first. A
  key found with the value \<^verbatim>\<open>None\<close> ends the search of that dictionary with
  \<^verbatim>\<open>None\<close>.
\<close>

fun find_key :: "node \<Rightarrow> string \<Rightarrow> node"
  and find_key_items :: "(string \<times> node) list \<Rightarrow> string \<Rightarrow> node"
  and find_key_list :: "node list \<Rightarrow> string \<Rightarrow> node" where
  "find_key (NDict kvs) key = find_key_items kvs key"
| "find_key (NList xs) key = find_key_list xs key"
| "find_key NNone key = NNone"
| "find_key (NBool b) key = NNone"
| "find_key (NInt i) key = NNone"
| "find_key (NStr s) key = NNone"
| "find_key_items [] key = NNone"
| "find_key_items ((k, v) # rest) key =
     (if k = key then v
      else (let found = find_key v key
            in if found \<noteq> NNone then found else find_key_items rest key))"
| "find_key_list [] key = NNone"
| "find_key_list (x # xs) key =
     (let found = find_key x key
      in if found \<noteq> NNone then found else find_key_list xs key)"

subsection \<open>Gate control entries\<close>

text \<open>The body of the loop over the interfaces of one document.\<close>

definition gce_interface :: "node \<Rightarrow> node list \<Rightarrow> node list option" where
  "gce_interface iface entries =
     (let gate_table = find_key iface ''gate-parameter-table''
      in if \<not> truthy gate_table then Some entries
         else let admin_list = find_key gate_table ''admin-control-list''
              in if \<not> truthy admin_list then Some entries
                 else do {
                   gate_entries \<leftarrow> py_get admin_list ''gate-control-entry'' NNone;
                   if \<not> truthy gate_entries then Some entries
                   else Some (entries @ as_list gate_entries)
                 })"

text \<open>The body of the loop over the documents.\<close>

definition gce_document :: "node \<Rightarrow> node list \<Rightarrow> node list option" where
  "gce_document doc entries =
     (let interfaces_section = find_key doc ''interfaces''
      in if \<not> truthy interfaces_section then Some entries
         else do {
           interface_list \<leftarrow> py_get interfaces_section ''interface'' NNone;
           if \<not> truthy interface_list then Some entries
           else foldM gce_interface (as_list interface_list) entries
         })"

definition get_gate_control_entries :: "node list \<Rightarrow> node list option" where
  "get_gate_control_entries documents = foldM gce_document documents []"

text \<open>\<^verbatim>\<open>if v is None: v = "0"\<close>.\<close>

definition or_zero :: "node \<Rightarrow> node" where
  "or_zero v = (if v = NNone then NStr ''0'' else v)"

text \<open>
  The body of the loop of \<^verbatim>\<open>get_gate_control_entries_formatted\<close>: the text of
  one entry.
\<close>

definition format_gate_entry :: "node \<Rightarrow> string option" where
  "format_gate_entry entry = do {
     op \<leftarrow> py_get entry ''operation-name'' NNone;
     state_val0 \<leftarrow> py_get entry ''gate-states-value'' NNone;
     interval0 \<leftarrow> py_get entry ''time-interval-value'' NNone;
     let state_val = or_zero state_val0;
     let interval = or_zero interval0;
     if op = NStr ''sched:set-gate-states'' then do {
       n \<leftarrow> py_int state_val;
       Some (''sched-entry S '' @ format_02X n @ '' '' @ py_str interval)
     }
     else Some (''sched-entry ? '' @ py_str state_val @ '' '' @ py_str interval)
   }"

definition get_gate_control_entries_formatted :: "node list \<Rightarrow> string list option" where
  "get_gate_control_entries_formatted documents = do {
     entries \<leftarrow> get_gate_control_entries documents;
     foldM (\<lambda>entry formatted_entries. do {
              line \<leftarrow> format_gate_entry entry;
              Some (formatted_entries @ [line])
            }) entries []
   }"


text \<open>A document with one interface and two gate control entries.\<close>

definition example_gate_entries :: "node list" where
  "example_gate_entries =
     [NDict [(''operation-name'', NStr ''sched:set-gate-states''),
             (''gate-states-value'', NStr ''15''),
             (''time-interval-value'', NStr ''500000'')],
      NDict [(''operation-name'', NStr ''sched:set-and-hold-mac''),
             (''gate-states-value'', NStr ''7''),
             (''time-interval-value'', NStr ''1000'')]]"

definition example_gate_documents :: "node list" where
  "example_gate_documents =
     [NDict [(''interfaces'',
        NDict [(''interface'',
          NDict [(''name'', NStr ''enp170s0''),
                 (''gate-parameter-table'',
                    NDict [(''admin-control-list'',
                      NDict [(''gate-control-entry'', NList example_gate_entries)])])])])]]"

text \<open>
  A document with three set-gate-states entries: the first has no gate states, the
  second no interval, the third neither.
\<close>

definition example_sparse_gate_entries :: "node list" where
  "example_sparse_gate_entries =
     [NDict [(''operation-name'', NStr ''sched:set-gate-states''),
             (''time-interval-value'', NStr ''700'')],
      NDict [(''operation-name'', NStr ''sched:set-gate-states''),
             (''gate-states-value'', NStr ''15'')],
      NDict [(''operation-name'', NStr ''sched:set-gate-states'')]]"

definition example_sparse_gate_documents :: "node list" where
  "example_sparse_gate_documents =
     [NDict [(''interfaces'',
        NDict [(''interface'',
          NDict [(''gate-parameter-table'',
                    NDict [(''admin-control-list'',
                      NDict [(''gate-control-entry'', NList example_sparse_gate_entries)])])])])]]"

subsection \<open>Talker records\<close>

text \<open>
  The local variables of \<^verbatim>\<open>get_all_talker_stream_info\<close> that the loop over the
  configuration list of one talker assigns.
\<close>

record talker_vars =
  dst_mac :: node
  vlan_tag :: bool
  vlan_id :: node
  pcp :: node
  src_ip :: node
  dst_ip :: node
  dscp :: node
  ip_protocol :: node
  src_port :: node
  dst_port :: node
  time_aware :: bool
  time_aware_offset :: node
  earliest_tx_offset :: node
  latest_tx_offset :: node

definition initial_talker_vars :: talker_vars where
  "initial_talker_vars =
     \<lparr>dst_mac = NNone, vlan_tag = False, vlan_id = NNone, pcp = NNone, src_ip = NNone,
      dst_ip = NNone, dscp = NNone, ip_protocol = NNone, src_port = NNone, dst_port = NNone,
      time_aware = False, time_aware_offset = NNone, earliest_tx_offset = NNone,
      latest_tx_offset = NNone\<rparr>"

text \<open>
  \<^verbatim>\<open>mac.replace("-", ":") if mac else None\<close>: a true value that is not a string
  has no method \<^verbatim>\<open>replace\<close>.
\<close>

definition replace_mac :: "node \<Rightarrow> node option" where
  "replace_mac mac =
     (if truthy mac then (case mac of NStr s \<Rightarrow> Some (NStr (replace_hyphen_colon s)) | _ \<Rightarrow> None)
      else Some NNone)"

text \<open>\<^verbatim>\<open>val and str(val).strip() not in ("0", "0.0", "")\<close>.\<close>

definition nonzero_offset :: "node \<Rightarrow> bool" where
  "nonzero_offset val \<longleftrightarrow> truthy val \<and> strip (py_str val) \<notin> set [''0'', ''0.0'', '''']"

text \<open>The five blocks of the loop body, one per key looked for in the entry.\<close>

definition cfg_mac_addresses :: "node \<Rightarrow> talker_vars \<Rightarrow> talker_vars option" where
  "cfg_mac_addresses cfg v = do {
     present \<leftarrow> py_contains ''ieee802-mac-addresses'' cfg;
     if present then do {
       macs \<leftarrow> py_index cfg ''ieee802-mac-addresses'';
       mac \<leftarrow> py_get macs ''destination-mac-address'' NNone;
       mac' \<leftarrow> replace_mac mac;
       Some (v\<lparr>dst_mac := mac'\<rparr>)
     } else Some v
   }"

definition cfg_vlan_tag :: "node \<Rightarrow> talker_vars \<Rightarrow> talker_vars option" where
  "cfg_vlan_tag cfg v = do {
     present \<leftarrow> py_contains ''ieee802-vlan-tag'' cfg;
     if present then do {
       vlan \<leftarrow> py_index cfg ''ieee802-vlan-tag'';
       vid \<leftarrow> py_get vlan ''vlan-id'' NNone;
       prio \<leftarrow> py_get vlan ''priority-code-point'' NNone;
       Some (v\<lparr>vlan_tag := True, vlan_id := vid, pcp := prio\<rparr>)
     } else Some v
   }"

definition cfg_ipv4_tuple :: "node \<Rightarrow> talker_vars \<Rightarrow> talker_vars option" where
  "cfg_ipv4_tuple cfg v = do {
     present \<leftarrow> py_contains ''ipv4-tuple'' cfg;
     if present then do {
       ipv4 \<leftarrow> py_index cfg ''ipv4-tuple'';
       sip \<leftarrow> py_get ipv4 ''source-ip-address'' NNone;
       dip \<leftarrow> py_get ipv4 ''destination-ip-address'' NNone;
       ds \<leftarrow> py_get ipv4 ''dscp'' NNone;
       proto \<leftarrow> py_get ipv4 ''protocol'' NNone;
       sport \<leftarrow> py_get ipv4 ''source-port'' NNone;
       dport \<leftarrow> py_get ipv4 ''destination-port'' NNone;
       Some (v\<lparr>src_ip := sip, dst_ip := dip, dscp := ds, ip_protocol := proto,
               src_port := sport, dst_port := dport\<rparr>)
     } else Some v
   }"

definition cfg_time_aware_offset :: "node \<Rightarrow> talker_vars \<Rightarrow> talker_vars option" where
  "cfg_time_aware_offset cfg v = do {
     present \<leftarrow> py_contains ''time-aware-offset'' cfg;
     if present then do {
       offset_val \<leftarrow> py_get cfg ''time-aware-offset'' NNone;
       if nonzero_offset offset_val
       then Some (v\<lparr>time_aware := True, time_aware_offset := offset_val\<rparr>)
       else Some v
     } else Some v
   }"

definition cfg_time_aware :: "node \<Rightarrow> talker_vars \<Rightarrow> talker_vars option" where
  "cfg_time_aware cfg v = do {
     present \<leftarrow> py_contains ''time-aware'' cfg;
     if present then do {
       time_block \<leftarrow> py_index cfg ''time-aware'';
       earliest \<leftarrow> py_get time_block ''earliest-transmit-offset'' NNone;
       latest \<leftarrow> py_get time_block ''latest-transmit-offset'' NNone;
       Some (fold (\<lambda>val w. if nonzero_offset val then w\<lparr>time_aware := True\<rparr> else w)
               [earliest, latest]
               (v\<lparr>earliest_tx_offset := earliest, latest_tx_offset := latest\<rparr>))
     } else Some v
   }"

definition cfg_step :: "node \<Rightarrow> talker_vars \<Rightarrow> talker_vars option" where
  "cfg_step cfg v = do {
     v1 \<leftarrow> cfg_mac_addresses cfg v;
     v2 \<leftarrow> cfg_vlan_tag cfg v1;
     v3 \<leftarrow> cfg_ipv4_tuple cfg v2;
     v4 \<leftarrow> cfg_time_aware_offset cfg v3;
     cfg_time_aware cfg v4
   }"

text \<open>The interface list and the configuration list of a talker.\<close>

definition talker_interface_list :: "node \<Rightarrow> node option" where
  "talker_interface_list talker = do {
     iface_cfg \<leftarrow> py_get talker ''interface-configuration'' (NDict []);
     py_get iface_cfg ''interface-list'' (NDict [])
   }"

definition talker_config_list :: "node \<Rightarrow> node list option" where
  "talker_config_list talker = do {
     iface_list \<leftarrow> talker_interface_list talker;
     cfg_lists \<leftarrow> py_get iface_list ''config-list'' (NList []);
     Some (as_list cfg_lists)
   }"

text \<open>The body of the loop over the talkers of a stream: the record of one talker.\<close>

definition talker_entry :: "node \<Rightarrow> pydict option" where
  "talker_entry talker = do {
     end_iface \<leftarrow> py_get talker ''end-station-interfaces'' (NDict []);
     src_mac0 \<leftarrow> py_get end_iface ''mac-address'' NNone;
     src_mac \<leftarrow> replace_mac src_mac0;
     iface_list \<leftarrow> talker_interface_list talker;
     interface_mac0 \<leftarrow> py_get iface_list ''mac-address'' NNone;
     interface_mac \<leftarrow> replace_mac interface_mac0;
     interface_name \<leftarrow> py_get iface_list ''interface-name'' NNone;
     cfg_lists \<leftarrow> talker_config_list talker;
     v \<leftarrow> foldM cfg_step cfg_lists initial_talker_vars;
     Some [(''interface_name'', interface_name),
           (''interface_mac'', interface_mac),
           (''source_mac'', src_mac),
           (''destination_mac'', dst_mac v),
           (''source_ip'', src_ip v),
           (''destination_ip'', dst_ip v),
           (''dscp'', dscp v),
           (''ip_protocol'', ip_protocol v),
           (''source_port'', src_port v),
           (''destination_port'', dst_port v),
           (''vlan_tag'', NBool (vlan_tag v)),
           (''vlan_id'', vlan_id v),
           (''vlan_priority'', pcp v),
           (''time_aware'', NBool (time_aware v)),
           (''time_aware_offset'', time_aware_offset v),
           (''earliest_transmit_offset'', earliest_tx_offset v),
           (''latest_transmit_offset'', latest_tx_offset v)]
   }"

text \<open>
  The result dictionary is keyed by the stream identifier as found in the document.
  Lists and dictionaries are not hashable; the integers 0 and 1 are the same key as the
  booleans.
\<close>

fun hashable :: "node \<Rightarrow> bool" where
  "hashable (NList xs) = False"
| "hashable (NDict kvs) = False"
| "hashable NNone = True"
| "hashable (NBool b) = True"
| "hashable (NInt i) = True"
| "hashable (NStr s) = True"

fun key_norm :: "node \<Rightarrow> node" where
  "key_norm (NBool b) = NInt (if b then 1 else 0)"
| "key_norm NNone = NNone"
| "key_norm (NInt i) = NInt i"
| "key_norm (NStr s) = NStr s"
| "key_norm (NList xs) = NList xs"
| "key_norm (NDict kvs) = NDict kvs"

text \<open>\<^verbatim>\<open>result.setdefault(stream_id, []).append(talker_entry)\<close>.\<close>

fun setdefault_append :: "(node \<times> pydict list) list \<Rightarrow> node \<Rightarrow> pydict \<Rightarrow> (node \<times> pydict list) list" where
  "setdefault_append [] k e = [(k, [e])]"
| "setdefault_append ((k', es) # rest) k e =
     (if key_norm k' = key_norm k then (k', es @ [e]) # rest
      else (k', es) # setdefault_append rest k e)"

definition talker_step :: "node \<Rightarrow> node \<Rightarrow> (node \<times> pydict list) list \<Rightarrow> (node \<times> pydict list) list option" where
  "talker_step stream_id talker result = do {
     e \<leftarrow> talker_entry talker;
     if hashable stream_id then Some (setdefault_append result stream_id e) else None
   }"

definition stream_step :: "node \<Rightarrow> (node \<times> pydict list) list \<Rightarrow> (node \<times> pydict list) list option" where
  "stream_step stream result = do {
     stream_id \<leftarrow> py_get stream ''stream-id'' NNone;
     if \<not> truthy stream_id then Some result
     else do {
       talkers \<leftarrow> py_get stream ''talker'' (NList []);
       foldM (talker_step stream_id) (as_list talkers) result
     }
   }"

definition cuc_step :: "node \<Rightarrow> (node \<times> pydict list) list \<Rightarrow> (node \<times> pydict list) list option" where
  "cuc_step cuc result = do {
     streams \<leftarrow> py_get cuc ''stream'' (NList []);
     foldM stream_step (as_list streams) result
   }"

definition domain_step :: "node \<Rightarrow> (node \<times> pydict list) list \<Rightarrow> (node \<times> pydict list) list option" where
  "domain_step domain result = do {
     cucs \<leftarrow> py_get domain ''cuc'' (NList []);
     foldM cuc_step (as_list cucs) result
   }"

definition document_step :: "node \<Rightarrow> (node \<times> pydict list) list \<Rightarrow> (node \<times> pydict list) list option" where
  "document_step doc result = do {
     cnc \<leftarrow> py_get doc ''cnc-config'' (NDict []);
     domains \<leftarrow> py_get cnc ''domain'' (NList []);
     foldM domain_step (as_list domains) result
   }"

definition get_all_talker_stream_info :: "node list \<Rightarrow> (node \<times> pydict list) list option" where
  "get_all_talker_stream_info documents =
     (if documents = [] then Some [] else foldM document_step documents [])"

text \<open>
  \<^verbatim>\<open>r in result[stream_id]\<close>: the result holds the record \<open>r\<close> in the list
  of the stream.
\<close>

definition has_record :: "(node \<times> pydict list) list \<Rightarrow> node \<Rightarrow> pydict \<Rightarrow> bool" where
  "has_record result stream_id r \<longleftrightarrow>
     (\<exists>(k, rs) \<in> set result. key_norm k = key_norm stream_id \<and> r \<in> set rs)"

text \<open>
  The talkers of the documents, each with the identifier of its stream, in document
  order: the talkers of every stream with a true \<^verbatim>\<open>stream-id\<close>, of every
  \<^verbatim>\<open>cuc\<close>, of every \<^verbatim>\<open>domain\<close> of the \<^verbatim>\<open>cnc-config\<close> of every document. A
  single node stands for the list of that one node, a missing key for no node.
\<close>

definition sub_nodes :: "node \<Rightarrow> string \<Rightarrow> node list" where
  "sub_nodes obj key =
     (case obj of NDict kvs \<Rightarrow> as_list (dict_get kvs key (NList [])) | _ \<Rightarrow> [])"

definition stream_talkers :: "node \<Rightarrow> (node \<times> node) list" where
  "stream_talkers stream =
     (case stream of
        NDict kvs \<Rightarrow>
          (case map_of kvs ''stream-id'' of
             None \<Rightarrow> []
           | Some stream_id \<Rightarrow>
               if truthy stream_id then map (Pair stream_id) (sub_nodes stream ''talker'') else [])
      | _ \<Rightarrow> [])"

definition cuc_talkers :: "node \<Rightarrow> (node \<times> node) list" where
  "cuc_talkers cuc = concat (map stream_talkers (sub_nodes cuc ''stream''))"

definition domain_talkers :: "node \<Rightarrow> (node \<times> node) list" where
  "domain_talkers domain = concat (map cuc_talkers (sub_nodes domain ''cuc''))"

definition document_talkers :: "node \<Rightarrow> (node \<times> node) list" where
  "document_talkers doc =
     (case doc of
        NDict kvs \<Rightarrow>
          concat (map domain_talkers (sub_nodes (dict_get kvs ''cnc-config'' (NDict [])) ''domain''))
      | _ \<Rightarrow> [])"

definition documents_talkers :: "node list \<Rightarrow> (node \<times> node) list" where
  "documents_talkers documents = concat (map document_talkers documents)"

text \<open>
  The values of an entry of the configuration list that decide whether the talker is
  time aware: its \<^verbatim>\<open>time-aware-offset\<close> and the \<^verbatim>\<open>earliest-transmit-offset\<close>
  and \<^verbatim>\<open>latest-transmit-offset\<close> of its \<^verbatim>\<open>time-aware\<close> block, each when present.
\<close>

definition offset_sources :: "node \<Rightarrow> node list" where
  "offset_sources cfg =
     (case cfg of
        NDict kvs \<Rightarrow>
          (case map_of kvs ''time-aware-offset'' of None \<Rightarrow> [] | Some x \<Rightarrow> [x])
          @ (case map_of kvs ''time-aware'' of
               Some (NDict tb) \<Rightarrow>
                 (case map_of tb ''earliest-transmit-offset'' of None \<Rightarrow> [] | Some x \<Rightarrow> [x])
                 @ (case map_of tb ''latest-transmit-offset'' of None \<Rightarrow> [] | Some x \<Rightarrow> [x])
             | _ \<Rightarrow> [])
      | _ \<Rightarrow> [])"

text \<open>
  A document with one stream of two talkers: the offset of the first is 78600, the
  offsets of the second are \<open>0\<close>, \<open>0.0\<close> between blanks and the empty text.
\<close>

definition example_talker :: node where
  "example_talker =
     NDict [(''end-station-interfaces'', NDict [(''mac-address'', NStr ''DE-AD-BE-EF-00-01'')]),
            (''interface-configuration'',
               NDict [(''interface-list'',
                 NDict [(''interface-name'', NStr ''eth0''),
                        (''config-list'',
                           NList [NDict [(''ieee802-vlan-tag'',
                                            NDict [(''vlan-id'', NStr ''22''),
                                                   (''priority-code-point'', NStr ''2'')])],
                                  NDict [(''time-aware-offset'', NStr ''78600'')]])])])]"

definition example_idle_talker :: node where
  "example_idle_talker =
     NDict [(''interface-configuration'',
               NDict [(''interface-list'',
                 NDict [(''interface-name'', NStr ''eth1''),
                        (''config-list'',
                           NDict [(''time-aware-offset'', NStr ''0''),
                                  (''time-aware'',
                                     NDict [(''earliest-transmit-offset'', NStr '' 0.0 ''),
                                            (''latest-transmit-offset'', NStr '''')])])])])]"

definition example_talker_documents :: "node list" where
  "example_talker_documents =
     [NDict [(''cnc-config'',
        NDict [(''domain'',
          NDict [(''cuc'',
            NDict [(''stream'',
              NDict [(''stream-id'', NStr ''de-ad-be-ef-00-01:00-05''),
                     (''talker'', NList [example_talker, example_idle_talker])])])])])]]"

definition example_talker_record :: pydict where
  "example_talker_record =
     [(''interface_name'', NStr ''eth0''),
      (''interface_mac'', NNone),
      (''source_mac'', NStr ''DE:AD:BE:EF:00:01''),
      (''destination_mac'', NNone),
      (''source_ip'', NNone),
      (''destination_ip'', NNone),
      (''dscp'', NNone),
      (''ip_protocol'', NNone),
      (''source_port'', NNone),
      (''destination_port'', NNone),
      (''vlan_tag'', NBool True),
      (''vlan_id'', NStr ''22''),
      (''vlan_priority'', NStr ''2''),
      (''time_aware'', NBool True),
      (''time_aware_offset'', NStr ''78600''),
      (''earliest_transmit_offset'', NNone),
      (''latest_transmit_offset'', NNone)]"

definition example_idle_talker_record :: pydict where
  "example_idle_talker_record =
     [(''interface_name'', NStr ''eth1''),
      (''interface_mac'', NNone),
      (''source_mac'', NNone),
      (''destination_mac'', NNone),
      (''source_ip'', NNone),
      (''destination_ip'', NNone),
      (''dscp'', NNone),
      (''ip_protocol'', NNone),
      (''source_port'', NNone),
      (''destination_port'', NNone),
      (''vlan_tag'', NBool False),
      (''vlan_id'', NNone),
      (''vlan_priority'', NNone),
      (''time_aware'', NBool False),
      (''time_aware_offset'', NNone),
      (''earliest_transmit_offset'', NStr '' 0.0 ''),
      (''latest_transmit_offset'', NStr '''')]"
subsection \<open>Classification of talkers\<close>

text \<open>
  A talker map is a dictionary from stream identifiers to lists of talker
  dictionaries, in insertion order. \<^verbatim>\<open>result[stream_id] = filtered\<close> replaces the
  value of a key that is present and appends a key that is new.
\<close>

type_synonym talker_map = "(string \<times> pydict list) list"

definition get_vlan_tagged_non_time_aware_talker_info :: "talker_map \<Rightarrow> talker_map" where
  "get_vlan_tagged_non_time_aware_talker_info all_talker_info =
     fold (\<lambda>(stream_id, talkers) vlan_non_time_aware_only.
             let filtered = filter (\<lambda>t. truthy (dict_get t ''vlan_tag'' (NBool False))
                                       \<and> \<not> truthy (dict_get t ''time_aware'' (NBool False))) talkers
             in if filtered \<noteq> [] then AList.update stream_id filtered vlan_non_time_aware_only
                else vlan_non_time_aware_only)
       all_talker_info []"

definition get_vlan_tagged_time_aware_talker_info :: "talker_map \<Rightarrow> talker_map" where
  "get_vlan_tagged_time_aware_talker_info all_talker_info =
     fold (\<lambda>(stream_id, talkers) vlan_time_aware_only.
             let filtered = filter (\<lambda>t. truthy (dict_get t ''vlan_tag'' (NBool False))
                                       \<and> truthy (dict_get t ''time_aware'' (NBool False))) talkers
             in if filtered \<noteq> [] then AList.update stream_id filtered vlan_time_aware_only
                else vlan_time_aware_only)
       all_talker_info []"

text \<open>The talkers of a stream in a talker map; none when the stream is not a key.\<close>

definition talkers_of :: "talker_map \<Rightarrow> string \<Rightarrow> pydict list" where
  "talkers_of m stream_id = (case map_of m stream_id of None \<Rightarrow> [] | Some ts \<Rightarrow> ts)"

text \<open>The talker map of \<^verbatim>\<open>tests/config_parser/test_vlan_tag_filters.py\<close>.\<close>

definition sample_all_talker_info :: talker_map where
  "sample_all_talker_info =
     [(''stream1'',
        [[(''vlan_tag'', NBool True), (''time_aware'', NBool True), (''interface_name'', NStr ''eth0'')],
         [(''vlan_tag'', NBool True), (''time_aware'', NBool False), (''interface_name'', NStr ''eth1'')],
         [(''vlan_tag'', NBool False), (''time_aware'', NBool True), (''interface_name'', NStr ''eth2'')]]),
      (''stream2'',
        [[(''vlan_tag'', NBool True), (''time_aware'', NBool True), (''interface_name'', NStr ''enp1s0'')],
         [(''vlan_tag'', NBool False), (''time_aware'', NBool False), (''interface_name'', NStr ''enp2s0'')]])]"

section \<open>XML parser (xml\_parser.py)\<close>

text \<open>
  An element of \<^verbatim>\<open>xml.etree.ElementTree\<close>: its tag, its attributes in document
  order, its text (\<^verbatim>\<open>None\<close> when there is none) and its child elements.
\<close>

datatype element = Element string "(string \<times> string) list" "string option" "element list"

fun element_children :: "element \<Rightarrow> element list" where
  "element_children (Element etag attrib etext children) = children"

text \<open>\<^verbatim>\<open>tag.split("}")[-1] if "}" in tag else tag\<close>.\<close>

definition strip_namespace :: "string \<Rightarrow> string" where
  "strip_namespace etag =
     (if CHR ''}'' \<in> set etag then rev (takeWhile (\<lambda>c. c \<noteq> CHR ''}'') (rev etag)) else etag)"

text \<open>
  The body of the loop over the children: \<open>entry\<close> is the one-entry dictionary that
  the conversion of the child returned.
\<close>

definition add_child :: "string \<times> node \<Rightarrow> pydict \<Rightarrow> pydict" where
  "add_child entry node =
     (let (child_tag, child_value) = entry
      in case map_of node child_tag of
           Some current \<Rightarrow>
             (case current of
                NList xs \<Rightarrow> AList.update child_tag (NList (xs @ [child_value])) node
              | _ \<Rightarrow> AList.update child_tag (NList [current, child_value]) node)
         | None \<Rightarrow> AList.update child_tag child_value node)"

text \<open>
  \<^verbatim>\<open>_element_to_dict\<close>. The result is a dictionary with the one key \<open>tag\<close>; the
  model returns the key and its value.
\<close>

fun element_to_dict :: "element \<Rightarrow> string \<times> node" where
  "element_to_dict (Element etag attrib etext children) =
     (let tag = strip_namespace etag;
          node0 = (if attrib \<noteq> []
                   then fold (\<lambda>(k, v) node. AList.update (''@'' @ k) (NStr v) node) attrib []
                   else []);
          node1 = (if children \<noteq> []
                   then fold (\<lambda>child node. add_child (element_to_dict child) node) children node0
                   else node0);
          text = (case etext of None \<Rightarrow> [] | Some s \<Rightarrow> if s \<noteq> [] then strip s else [])
      in if text \<noteq> []
         then (if children \<noteq> [] \<or> attrib \<noteq> []
               then (tag, NDict (AList.update ''#text'' (NStr text) node1))
               else (tag, NStr text))
         else (if node1 \<noteq> [] then (tag, NDict node1) else (tag, NNone)))"

declare element_to_dict.simps [simp del]

text \<open>
  \<^verbatim>\<open>_element_to_dict\<close> calls itself once for every level of nesting, and the
  interpreter raises a RecursionError when the calls nest deeper than it allows.
  \<open>element_depth\<close> is the number of nested calls the conversion of an element
  needs; \<open>element_to_dict_call\<close> is a call of \<^verbatim>\<open>_element_to_dict\<close> where the
  interpreter allows \<open>limit\<close> nested calls (\<open>None\<close> for the RecursionError).
\<close>

fun element_depth :: "element \<Rightarrow> nat" where
  "element_depth (Element etag attrib etext children) =
     Suc (fold max (map element_depth children) 0)"

definition element_to_dict_call :: "nat \<Rightarrow> element \<Rightarrow> (string \<times> node) option" where
  "element_to_dict_call limit el =
     (if element_depth el \<le> limit then Some (element_to_dict el) else None)"

text \<open>
  The values of the children of an element that were converted under the tag \<open>t\<close>,
  in document order.
\<close>

definition child_values :: "element \<Rightarrow> string \<Rightarrow> node list" where
  "child_values e t =
     map snd (filter (\<lambda>entry. fst entry = t) (map element_to_dict (element_children e)))"

text \<open>
  What a dictionary holds under a tag whose values, in order, are \<open>vs\<close>: nothing
  for no value, the bare value for one, the sequence of the values for more.
\<close>

definition folded_value :: "node list \<Rightarrow> node option" where
  "folded_value vs = (case vs of [] \<Rightarrow> None | [v] \<Rightarrow> Some v | _ \<Rightarrow> Some (NList vs))"

text \<open>\<^verbatim>\<open><p><a>1</a><a>2</a><b>3</b></p>\<close>\<close>

definition example_element :: element where
  "example_element =
     Element ''p'' [] None
       [Element ''a'' [] (Some ''1'') [],
        Element ''a'' [] (Some ''2'') [],
        Element ''b'' [] (Some ''3'') []]"

section \<open>Marker domain (xml\_parser.py, yaml\_parser.py)\<close>

text \<open>
  \<^verbatim>\<open>_contains_chronos\<close>, the same function in both parsers: some key or value of
  some dictionary of the tree holds the marker in its lower-cased text.
\<close>

fun contains_chronos :: "node \<Rightarrow> bool"
  and contains_chronos_items :: "(string \<times> node) list \<Rightarrow> bool"
  and contains_chronos_list :: "node list \<Rightarrow> bool" where
  "contains_chronos (NDict kvs) = contains_chronos_items kvs"
| "contains_chronos (NList xs) = contains_chronos_list xs"
| "contains_chronos NNone = False"
| "contains_chronos (NBool b) = False"
| "contains_chronos (NInt i) = False"
| "contains_chronos (NStr s) = False"
| "contains_chronos_items [] = False"
| "contains_chronos_items ((k, v) # rest) =
     (if is_substring ''chronos-domain'' (lower k)
         \<or> is_substring ''chronos-domain'' (lower (py_str v)) then True
      else if contains_chronos v then True
      else contains_chronos_items rest)"
| "contains_chronos_list [] = False"
| "contains_chronos_list (x # xs) = (contains_chronos x \<or> contains_chronos_list xs)"

text \<open>\<^verbatim>\<open>has_chronos_domain\<close> of a format parser, over the documents it holds.\<close>

definition parser_has_chronos_domain :: "node list \<Rightarrow> bool" where
  "parser_has_chronos_domain documents = list_ex contains_chronos documents"

section \<open>Universal parser (universal\_parser.py)\<close>

text \<open>
  What the parsers read from outside: the text of a file (\<open>None\<close> when it cannot
  be opened or decoded), \<^verbatim>\<open>ET.fromstring\<close> (\<open>None\<close> for a ParseError),
  \<^verbatim>\<open>yaml.safe_load_all\<close> read to its end (\<open>None\<close> for a YAML error), and the
  number of nested calls of \<^verbatim>\<open>_element_to_dict\<close> that the interpreter allows
  inside \<^verbatim>\<open>XMLParser.parse\<close>.
\<close>

record env =
  read_file :: "string \<Rightarrow> string option"
  fromstring :: "string \<Rightarrow> element option"
  safe_load_all :: "string \<Rightarrow> node list option"
  recursion_limit :: nat

text \<open>
  \<^verbatim>\<open>XMLParser.parse\<close> and \<^verbatim>\<open>YAMLParser.parse\<close>: the value returned (\<open>None\<close>
  when the call raises) and the documents the parser holds after the call. Both empty
  their documents before they read the file.

  The loop of \<^verbatim>\<open>XMLParser.parse\<close> appends the document of one root at a time to
  \<^verbatim>\<open>self.documents\<close>: when the conversion of a root raises, the documents of the
  roots before it stay in the parser. \<^verbatim>\<open>YAMLParser.parse\<close> reads all documents
  before it appends the first.
\<close>

fun convert_roots :: "nat \<Rightarrow> element list \<Rightarrow> node list \<Rightarrow> node list option \<times> node list" where
  "convert_roots limit [] documents = (Some documents, documents)"
| "convert_roots limit (child # rest) documents =
     (case element_to_dict_call limit child of
        None \<Rightarrow> (None, documents)
      | Some entry \<Rightarrow> convert_roots limit rest (documents @ [NDict [entry]]))"

definition xml_parse :: "env \<Rightarrow> string \<Rightarrow> node list option \<times> node list" where
  "xml_parse e file_path =
     (case read_file e file_path of
        None \<Rightarrow> (None, [])
      | Some content \<Rightarrow>
          (case fromstring e (''<root>'' @ content @ ''</root>'') of
             None \<Rightarrow> (None, [])
           | Some root \<Rightarrow> convert_roots (recursion_limit e) (element_children root) []))"

definition yaml_parse :: "env \<Rightarrow> string \<Rightarrow> node list option \<times> node list" where
  "yaml_parse e file_path =
     (case read_file e file_path of
        None \<Rightarrow> (None, [])
      | Some content \<Rightarrow>
          (case safe_load_all e content of
             None \<Rightarrow> (None, [])
           | Some docs \<Rightarrow>
               (let documents = fold (\<lambda>doc documents. if doc \<noteq> NNone then documents @ [doc]
                                                        else documents) docs []
                in (Some documents, documents))))"

text \<open>
  The three parser objects of \<^verbatim>\<open>self.parsers\<close> and the state of a
  \<^verbatim>\<open>UniversalParser\<close>: the documents each parser object holds, the parser used
  last and the cached documents.
\<close>

datatype parser_id = XML | YAML | YML

record universal_parser =
  xml_documents :: "node list"
  yaml_documents :: "node list"
  yml_documents :: "node list"
  current_parser :: "parser_id option"
  documents :: "node list"

definition new_universal_parser :: universal_parser where
  "new_universal_parser =
     \<lparr>xml_documents = [], yaml_documents = [], yml_documents = [], current_parser = None,
      documents = []\<rparr>"

text \<open>The extension of \<^verbatim>\<open>os.path.splitext\<close>.\<close>

definition splitext_ext :: "string \<Rightarrow> string" where
  "splitext_ext p =
     (let name = rev (takeWhile (\<lambda>c. c \<noteq> CHR ''/'') (rev p))
      in if CHR ''.'' \<in> set name
         then (let stem = rev (tl (dropWhile (\<lambda>c. c \<noteq> CHR ''.'') (rev name)));
                   ext = CHR ''.'' # rev (takeWhile (\<lambda>c. c \<noteq> CHR ''.'') (rev name))
               in if list_ex (\<lambda>c. c \<noteq> CHR ''.'') stem then ext else [])
         else [])"

definition select_parser :: "string \<Rightarrow> parser_id option" where
  "select_parser ext =
     (if ext = ''.xml'' then Some XML
      else if ext = ''.yaml'' then Some YAML
      else if ext = ''.yml'' then Some YML
      else None)"

fun parser_documents :: "universal_parser \<Rightarrow> parser_id \<Rightarrow> node list" where
  "parser_documents s XML = xml_documents s"
| "parser_documents s YAML = yaml_documents s"
| "parser_documents s YML = yml_documents s"

fun run_parser :: "env \<Rightarrow> parser_id \<Rightarrow> string \<Rightarrow> universal_parser
    \<Rightarrow> node list option \<times> universal_parser" where
  "run_parser e XML file_path s =
     (let (r, ds) = xml_parse e file_path in (r, s\<lparr>xml_documents := ds\<rparr>))"
| "run_parser e YAML file_path s =
     (let (r, ds) = yaml_parse e file_path in (r, s\<lparr>yaml_documents := ds\<rparr>))"
| "run_parser e YML file_path s =
     (let (r, ds) = yaml_parse e file_path in (r, s\<lparr>yml_documents := ds\<rparr>))"

text \<open>
  \<^verbatim>\<open>parse\<close>: the value returned (\<open>None\<close> when the call raises) and the state
  after the call. An unsupported extension raises before any assignment; an exception
  of the format parser leaves \<^verbatim>\<open>current_parser\<close> assigned and the cached
  documents as they were.
\<close>

definition parse :: "env \<Rightarrow> universal_parser \<Rightarrow> string \<Rightarrow> node list option \<times> universal_parser" where
  "parse e s file_path =
     (let ext = splitext_ext (lower file_path)
      in case select_parser ext of
           None \<Rightarrow> (None, s)
         | Some parser \<Rightarrow>
             (let s1 = s\<lparr>current_parser := Some parser\<rparr>;
                  (r, s2) = run_parser e parser file_path s1
              in case r of
                   None \<Rightarrow> (None, s2)
                 | Some ds \<Rightarrow> (Some ds, s2\<lparr>documents := ds\<rparr>)))"

definition refresh :: "env \<Rightarrow> universal_parser \<Rightarrow> string \<Rightarrow> node list option \<times> universal_parser" where
  "refresh e s file_path = parse e s file_path"

definition has_chronos_domain :: "universal_parser \<Rightarrow> bool" where
  "has_chronos_domain s =
     (case current_parser s of
        None \<Rightarrow> False
      | Some parser \<Rightarrow> parser_has_chronos_domain (parser_documents s parser))"

text \<open>
  \<^verbatim>\<open>get_dictionary_helper\<close>: a \<^verbatim>\<open>GE_Dictionary\<close> is the list of documents it
  is bound to.
\<close>

definition get_dictionary_helper :: "universal_parser \<Rightarrow> node list option" where
  "get_dictionary_helper s = (if has_chronos_domain s then Some (documents s) else None)"

text \<open>
  The states of a parser on which every call of \<^verbatim>\<open>parse\<close> or \<^verbatim>\<open>refresh\<close> so
  far has raised, in any environment.
\<close>

inductive never_parsed :: "universal_parser \<Rightarrow> bool" where
  fresh: "never_parsed new_universal_parser"
| failed_parse: "never_parsed s \<Longrightarrow> parse e s file_path = (None, s') \<Longrightarrow> never_parsed s'"
| failed_refresh: "never_parsed s \<Longrightarrow> refresh e s file_path = (None, s') \<Longrightarrow> never_parsed s'"

text \<open>An environment with one YAML file of two documents, the first of them null.\<close>

definition example_env :: env where
  "example_env =
     \<lparr>read_file = (\<lambda>p. if p = ''Config.YAML'' then Some ''text'' else None),
      fromstring = (\<lambda>c. None),
      safe_load_all = (\<lambda>c. Some [NNone, NDict [(''chronos-domain'', NStr ''1'')]]),
      recursion_limit = 1000\<rparr>"


text \<open>
  A file \<^verbatim>\<open>deep.xml\<close> of two roots, read where the interpreter allows 1000 nested
  calls: the first root is \<^verbatim>\<open><chronos-domain>1</chronos-domain>\<close>, the second is
  3001 elements \<^verbatim>\<open><a>\<close> nested in each other.
\<close>

fun nested :: "nat \<Rightarrow> element" where
  "nested 0 = Element ''a'' [] None []"
| "nested (Suc n) = Element ''a'' [] None [nested n]"

definition deep_env :: env where
  "deep_env =
     \<lparr>read_file = (\<lambda>p. if p = ''deep.xml'' then Some ''text'' else None),
      fromstring = (\<lambda>c. Some (Element ''root'' [] None
                      [Element ''chronos-domain'' [] (Some ''1'') [], nested 3000])),
      safe_load_all = (\<lambda>c. None),
      recursion_limit = 1000\<rparr>"
section \<open>Protocol and port match fragment (tc\_command.py)\<close>

definition IPPROTO_TCP :: int where "IPPROTO_TCP = 6"
definition IPPROTO_UDP :: int where "IPPROTO_UDP = 17"
definition IPPROTO_SCTP :: int where "IPPROTO_SCTP = 132"

definition is_port_in_range :: "int \<Rightarrow> bool" where
  "is_port_in_range port \<longleftrightarrow> 1 \<le> port \<and> port \<le> 65535"

text \<open>
  The statements after the chain of comparisons: they build the fragment from the
  local variables \<open>protocol_name\<close> and \<open>use_port\<close> that the chain has set.
\<close>

definition protocol_port_cmd :: "string \<Rightarrow> bool \<Rightarrow> int \<Rightarrow> int \<Rightarrow> string" where
  "protocol_port_cmd protocol_name use_port destination_port source_port =
     (let cmd0 = (if protocol_name \<noteq> [] then ''ip_proto '' @ protocol_name @ '' '' else []);
          cmd1 = (if is_port_in_range destination_port \<and> use_port
                  then cmd0 @ ''dst_port '' @ py_str_int destination_port @ '' '' else cmd0);
          cmd2 = (if is_port_in_range source_port \<and> use_port
                  then cmd1 @ ''src_port '' @ py_str_int source_port @ '' '' else cmd1)
      in cmd2)"

text \<open>
  \<^verbatim>\<open>_get_ip_protocol_and_ports_filter_configuration\<close>: the chain of comparisons,
  with its two early returns of the empty string.
\<close>

definition get_ip_protocol_and_ports_filter_configuration :: "int \<Rightarrow> int \<Rightarrow> int \<Rightarrow> string" where
  "get_ip_protocol_and_ports_filter_configuration protocol_number destination_port source_port =
     (if protocol_number = 65535 then []
      else if protocol_number = IPPROTO_TCP
      then protocol_port_cmd ''tcp'' True destination_port source_port
      else if protocol_number = IPPROTO_UDP
      then protocol_port_cmd ''udp'' True destination_port source_port
      else if protocol_number = IPPROTO_SCTP
      then protocol_port_cmd ''sctp'' True destination_port source_port
      else if protocol_number \<le> 255
      then protocol_port_cmd (py_hex protocol_number) False destination_port source_port
      else [])"

section \<open>Schedule commands (tc\_command.py)\<close>

text \<open>
  \<^verbatim>\<open>create_tc_qdisc_gcl_command\<close>. The arguments that default to \<^verbatim>\<open>None\<close> are
  options; \<open>now\<close> is the value of \<^verbatim>\<open>time.time_ns()\<close> at the call.
\<close>

definition taprio_command ::
  "string \<Rightarrow> string list \<Rightarrow> int \<Rightarrow> int \<Rightarrow> string \<Rightarrow> string \<Rightarrow> string \<Rightarrow> string \<Rightarrow> int \<Rightarrow> string" where
  "taprio_command iface gcl num_tc base_time map_str queues_str handle_id flags txtime_delay =
     join_str '' ''
       ([''tc qdisc replace dev '' @ iface @ '' parent root handle '' @ handle_id @ '' taprio'',
         '' num_tc '' @ py_str_int num_tc @ '' map '' @ map_str,
         '' queues '' @ queues_str,
         '' base-time '' @ py_str_int base_time]
        @ map (\<lambda>entry. '' '' @ entry @ '' '') gcl
        @ [''flags '' @ flags,
           ''txtime-delay '' @ py_str_int txtime_delay @ '' '',
           ''clockid CLOCK_TAI ''])"

definition etf_command :: "string \<Rightarrow> string \<Rightarrow> int \<Rightarrow> int \<Rightarrow> string" where
  "etf_command iface handle_id q delta =
     ''tc qdisc replace dev '' @ iface @ '' parent '' @ handle_id @ '':'' @ py_str_int q
     @ '' etf skip_sock_check offload delta '' @ py_str_int delta @ '' clockid CLOCK_TAI ''"

definition create_tc_qdisc_gcl_command ::
  "int \<Rightarrow> string list \<Rightarrow> string list \<Rightarrow> int \<Rightarrow> int option \<Rightarrow> string option \<Rightarrow> string option
   \<Rightarrow> string option \<Rightarrow> string \<Rightarrow> int \<Rightarrow> int \<Rightarrow> string list" where
  "create_tc_qdisc_gcl_command now interfaces gcl num_tc base_time map_str queues_str handle_id
       flags txtime_delay delta =
     (let base_time = (case base_time of None \<Rightarrow> now | Some t \<Rightarrow> t);
          map_str = (case map_str of None \<Rightarrow> ''0 1 2 3'' @ concat (replicate 12 '' 0'') | Some m \<Rightarrow> m);
          queues_str = (case queues_str of None \<Rightarrow> ''1@0 1@1 1@2 1@3'' | Some q \<Rightarrow> q);
          handle_id = (case handle_id of None \<Rightarrow> ''100'' | Some h \<Rightarrow> h)
      in fold (\<lambda>iface commands.
                 fold (\<lambda>q commands. commands @ [etf_command iface handle_id q delta])
                   [1..num_tc]
                   (commands @ [taprio_command iface gcl num_tc base_time map_str queues_str
                                  handle_id flags txtime_delay]))
           interfaces [])"

section \<open>Flow classification commands (tc\_command.py)\<close>

text \<open>
  The safe conversions of \<^verbatim>\<open>ip_protocol\<close>, \<^verbatim>\<open>destination_port\<close> and
  \<^verbatim>\<open>source_port\<close>: \<^verbatim>\<open>int(x) if x is not None else d\<close>.
\<close>

definition talker_numbers :: "pydict \<Rightarrow> (int \<times> int \<times> int) option" where
  "talker_numbers talker = do {
     proto_num \<leftarrow> (let ip_proto = dict_get talker ''ip_protocol'' NNone
                   in if ip_proto \<noteq> NNone then py_int ip_proto else Some 65535);
     dst_port_num \<leftarrow> (let dst_port = dict_get talker ''destination_port'' NNone
                      in if dst_port \<noteq> NNone then py_int dst_port else Some 0);
     src_port_num \<leftarrow> (let src_port = dict_get talker ''source_port'' NNone
                      in if src_port \<noteq> NNone then py_int src_port else Some 0);
     Some (proto_num, dst_port_num, src_port_num)
   }"

text \<open>
  The text of the flower filter of one talker. Both generators build it with the same
  statements, from the interface name, the fields of the talker and the converted
  numbers.
\<close>

definition flower_filter_command :: "node \<Rightarrow> pydict \<Rightarrow> int \<times> int \<times> int \<Rightarrow> string" where
  "flower_filter_command interface talker nums =
     (let (proto_num, dst_port_num, src_port_num) = nums;
          src_mac = dict_get talker ''source_mac'' NNone;
          dst_mac = dict_get talker ''destination_mac'' NNone;
          src_ip = dict_get talker ''source_ip'' NNone;
          dst_ip = dict_get talker ''destination_ip'' NNone;
          vlan_id = dict_get talker ''vlan_id'' NNone;
          vlan_prio = dict_get talker ''vlan_priority'' NNone;
          layer3_proto_cmd =
            get_ip_protocol_and_ports_filter_configuration proto_num dst_port_num src_port_num;
          cmd0 = ''tc filter add dev '' @ py_str interface @ '' egress protocol ip flower '';
          cmd1 = (if truthy src_mac then cmd0 @ ''src_mac '' @ py_str src_mac @ '' '' else cmd0);
          cmd2 = (if truthy dst_mac then cmd1 @ ''dst_mac '' @ py_str dst_mac @ '' '' else cmd1);
          cmd3 = (if truthy src_ip then cmd2 @ ''src_ip '' @ py_str src_ip @ '' '' else cmd2);
          cmd4 = (if truthy dst_ip then cmd3 @ ''dst_ip '' @ py_str dst_ip @ '' '' else cmd3);
          cmd5 = (if layer3_proto_cmd \<noteq> '''' then cmd4 @ layer3_proto_cmd @ '' '' else cmd4);
          cmd6 = cmd5 @ ''action vlan push id '' @ py_str vlan_id @ '' protocol 802.1Q priority ''
                   @ py_str vlan_prio @ '' pipe action skbedit priority '' @ py_str vlan_prio
      in strip cmd6)"

text \<open>
  \<^verbatim>\<open>create_tc_filter_commands_for_time_aware_talkers\<close>. The query
  \<^verbatim>\<open>_clsact_exists\<close> runs \<^verbatim>\<open>tc qdisc show\<close>; its answer for an interface is
  the parameter \<open>clsact_exists\<close>. The loop state is the command list and the set
  \<^verbatim>\<open>processed_ifaces\<close>, whose membership test needs a hashable value.
\<close>

definition time_aware_talker_step ::
  "(node \<Rightarrow> bool) \<Rightarrow> pydict \<Rightarrow> string list \<times> node list \<Rightarrow> (string list \<times> node list) option" where
  "time_aware_talker_step clsact_exists talker state =
     (let (commands, processed_ifaces) = state;
          interface = dict_get talker ''interface_name'' NNone
      in if \<not> truthy interface then Some state
         else do {
           nums \<leftarrow> talker_numbers talker;
           (commands1, processed1) \<leftarrow>
             (if \<not> hashable interface then None
              else if \<not> (\<exists>p \<in> set processed_ifaces. key_norm p = key_norm interface)
              then Some (if \<not> clsact_exists interface
                         then commands @ [''tc qdisc add dev '' @ py_str interface @ '' clsact'']
                         else commands,
                         processed_ifaces @ [interface])
              else Some (commands, processed_ifaces));
           Some (commands1 @ [flower_filter_command interface talker nums], processed1)
         })"

definition create_tc_filter_commands_for_time_aware_talkers ::
  "(node \<Rightarrow> bool) \<Rightarrow> talker_map \<Rightarrow> string list option" where
  "create_tc_filter_commands_for_time_aware_talkers clsact_exists vlan_time_aware_info =
     map_option fst
       (foldM (\<lambda>(stream_id, talkers) state.
                 foldM (time_aware_talker_step clsact_exists) talkers state)
          vlan_time_aware_info ([], []))"

text \<open>\<^verbatim>\<open>create_tc_filter_commands_for_non_time_aware_talkers\<close>.\<close>

definition non_time_aware_talker_step :: "pydict \<Rightarrow> string list \<Rightarrow> string list option" where
  "non_time_aware_talker_step talker commands =
     (let interface = dict_get talker ''interface_name'' NNone
      in if \<not> truthy interface then Some commands
         else do {
           nums \<leftarrow> talker_numbers talker;
           Some (commands @ [flower_filter_command interface talker nums])
         })"

definition create_tc_filter_commands_for_non_time_aware_talkers ::
  "talker_map \<Rightarrow> string list option" where
  "create_tc_filter_commands_for_non_time_aware_talkers vlan_non_time_aware_info =
     foldM (\<lambda>(stream_id, talkers) commands. foldM non_time_aware_talker_step talkers commands)
       vlan_non_time_aware_info []"

text \<open>
  What the generators are expected to emit, stated over the talkers of the map in
  iteration order: the filter command of a talker with an interface name, and before
  it the command that creates \<open>clsact\<close> when the talker is the first one of its
  interface and no \<open>clsact\<close> was detected there.
\<close>

definition talker_interface :: "pydict \<Rightarrow> node" where
  "talker_interface talker = dict_get talker ''interface_name'' NNone"

definition all_talkers :: "talker_map \<Rightarrow> pydict list" where
  "all_talkers m = concat (map snd m)"

definition first_seen :: "pydict list \<Rightarrow> nat \<Rightarrow> bool" where
  "first_seen ts n \<longleftrightarrow>
     (\<forall>j < n. key_norm (talker_interface (ts ! j)) \<noteq> key_norm (talker_interface (ts ! n)))"

definition filter_block :: "pydict \<Rightarrow> string list" where
  "filter_block talker =
     (if truthy (talker_interface talker)
      then (case talker_numbers talker of
              Some nums \<Rightarrow> [flower_filter_command (talker_interface talker) talker nums]
            | None \<Rightarrow> [])
      else [])"

definition clsact_block :: "(node \<Rightarrow> bool) \<Rightarrow> pydict list \<Rightarrow> nat \<Rightarrow> string list" where
  "clsact_block clsact_exists ts n =
     (let interface = talker_interface (ts ! n)
      in if truthy interface \<and> first_seen ts n \<and> \<not> clsact_exists interface
         then [''tc qdisc add dev '' @ py_str interface @ '' clsact''] else [])"

text \<open>The talker map of \<^verbatim>\<open>test_non_time_aware_vlan_handles_missing_fields\<close>.\<close>

definition minimal_data :: talker_map where
  "minimal_data =
     [(''streamZ'',
        [[(''interface_name'', NStr ''eth0''), (''vlan_id'', NInt 300), (''vlan_priority'', NInt 2)]])]"

text \<open>Two time-aware talkers on one interface.\<close>

definition example_time_aware_info :: talker_map where
  "example_time_aware_info =
     [(''streamA'',
        [[(''interface_name'', NStr ''enp170s0''), (''source_mac'', NStr ''aa:bb:cc:dd:ee:ff''),
          (''vlan_id'', NInt 22), (''vlan_priority'', NInt 3)]]),
      (''streamB'',
        [[(''interface_name'', NStr ''enp170s0''),
          (''vlan_id'', NInt 33), (''vlan_priority'', NInt 4)]])]"

section \<open>Properties\<close>

lemma hex_nat_lower_nonempty: "hex_nat_lower n \<noteq> []"
  by (subst hex_nat_lower.simps) simp

lemma py_hex_nonempty: "py_hex i \<noteq> []"
  by (simp add: py_hex_def)

text \<open>
  C3. For a protocol number between 0 and 65535 the fragment is empty for 65535; for
  6, 17 and 132 it names tcp, udp and sctp and is followed by the destination port
  and then the source port, each only when it lies in 1..65535; for any other number
  up to 255 it is the hexadecimal protocol number without ports; above 255 it is empty.
\<close>

theorem protocol_port_fragment:
  assumes "0 \<le> p" and "p \<le> 65535"
  shows "get_ip_protocol_and_ports_filter_configuration p d s =
     (if p = 65535 then ''''
      else if p = 6 \<or> p = 17 \<or> p = 132 then
        ''ip_proto '' @ (if p = 6 then ''tcp'' else if p = 17 then ''udp'' else ''sctp'') @ '' ''
        @ (if 1 \<le> d \<and> d \<le> 65535 then ''dst_port '' @ py_str_int d @ '' '' else '''')
        @ (if 1 \<le> s \<and> s \<le> 65535 then ''src_port '' @ py_str_int s @ '' '' else '''')
      else if p \<le> 255 then ''ip_proto '' @ py_hex p @ '' ''
      else '''')"
proof -
  note defs = get_ip_protocol_and_ports_filter_configuration_def IPPROTO_TCP_def
    IPPROTO_UDP_def IPPROTO_SCTP_def is_port_in_range_def protocol_port_cmd_def Let_def
  consider "p = 65535" | "p = 6" | "p = 17" | "p = 132"
    | "p \<noteq> 65535" "p \<noteq> 6" "p \<noteq> 17" "p \<noteq> 132" "p \<le> 255"
    | "p \<noteq> 65535" "255 < p"
    by linarith
  then show ?thesis
  proof cases
    case 1
    then show ?thesis by (simp add: defs)
  next
    case 2
    then show ?thesis by (simp add: defs)
  next
    case 3
    then show ?thesis by (simp add: defs)
  next
    case 4
    then show ?thesis by (simp add: defs)
  next
    case 5
    then show ?thesis by (simp add: defs py_hex_nonempty)
  next
    case 6
    then show ?thesis by (simp add: defs)
  qed
qed

theorem protocol_port_fragment_witness:
  "(0::int) \<le> 6 \<and> (6::int) \<le> 65535
   \<and> get_ip_protocol_and_ports_filter_configuration 6 8080 0 = ''ip_proto tcp dst_port 8080 ''
   \<and> get_ip_protocol_and_ports_filter_configuration 65535 8080 443 = ''''"
proof -
  have v: "py_str_int 8080 = ''8080''"
    by (simp add: py_str_int_def str_nat.simps dec_digit_def)
  show ?thesis
    using protocol_port_fragment [of 6 8080 0] protocol_port_fragment [of 65535 8080 443]
    by (simp add: v)
qed

subsection \<open>Evaluation of texts and numbers\<close>

lemmas number_text_simps =
  str_nat.simps hex_nat_lower.simps hex_nat_upper.simps dec_digit_def hex_digit_lower_def
  hex_digit_upper_def py_str_int_def py_hex_def format_02X_def

lemmas int_of_str_simps =
  int_of_str_def parse_number_def int_max_str_digits_def is_int_space_def is_digit_def
  digit_val_def

text \<open>
  The separators U+001C to U+001F are white space for \<^verbatim>\<open>str.strip\<close> and not
  for \<^verbatim>\<open>int\<close>; the no-break space is white space for both.
\<close>

lemma int_of_str_separator: "int_of_str [CHR 0x1C, CHR ''5''] = None"
  by (simp add: int_of_str_simps)

lemma strip_separator: "strip [CHR 0x1C, CHR ''5''] = ''5''"
  by (simp add: strip_def is_space_def)

lemma int_of_str_no_break_space: "int_of_str [CHR 0xA0, CHR ''5'', CHR 0x20] = Some 5"
  by (simp add: int_of_str_simps)

subsection \<open>Dictionaries and loops\<close>

lemma py_get_dict: "py_get (NDict kvs) key dflt = Some (dict_get kvs key dflt)"
  by (simp add: py_get_def dict_get_def)

lemma foldM_append:
  "foldM f (xs @ ys) s = (case foldM f xs s of None \<Rightarrow> None | Some s' \<Rightarrow> foldM f ys s')"
  by (induction xs arbitrary: s) (auto split: option.splits)

lemma foldM_invariant:
  assumes "foldM f xs s = Some s'" and "P s"
    and "\<And>x t t'. x \<in> set xs \<Longrightarrow> P t \<Longrightarrow> f x t = Some t' \<Longrightarrow> P t'"
  shows "P s'"
  using assms
proof (induction xs arbitrary: s)
  case Nil
  then show ?case by simp
next
  case (Cons x xs)
  from Cons.prems(1) obtain t where t: "f x s = Some t" and rest: "foldM f xs t = Some s'"
    by (auto split: option.splits)
  have "P t"
    using Cons.prems(3) [of x s t] Cons.prems(2) t by simp
  moreover have "\<And>y u u'. y \<in> set xs \<Longrightarrow> P u \<Longrightarrow> f y u = Some u' \<Longrightarrow> P u'"
  proof -
    fix y u u'
    assume "y \<in> set xs" "P u" "f y u = Some u'"
    then show "P u'"
      using Cons.prems(3) [of y u u'] by simp
  qed
  ultimately show ?case
    using Cons.IH [OF rest] by blast
qed

text \<open>
  A loop that appends one computed item per element returns the items of all elements
  in order, and raises as soon as one item does.
\<close>

lemma foldM_collect_Some:
  assumes "map g xs = map Some ys"
  shows "foldM (\<lambda>x acc. Option.bind (g x) (\<lambda>y. Some (acc @ [y]))) xs acc0 = Some (acc0 @ ys)"
  using assms
proof (induction xs arbitrary: acc0 ys)
  case Nil
  then show ?case by simp
next
  case (Cons x xs)
  from Cons.prems obtain y zs where ys: "ys = y # zs" and y: "g x = Some y"
    and zs: "map g xs = map Some zs"
    by (cases ys) auto
  show ?case
    using Cons.IH [OF zs, of "acc0 @ [y]"] by (simp add: ys y)
qed

lemma foldM_collect_D:
  assumes "foldM (\<lambda>x acc. Option.bind (g x) (\<lambda>y. Some (acc @ [y]))) xs acc0 = Some out"
  shows "\<exists>ys. out = acc0 @ ys \<and> map g xs = map Some ys"
  using assms
proof (induction xs arbitrary: acc0)
  case Nil
  then show ?case by simp
next
  case (Cons x xs)
  from Cons.prems obtain y where y: "g x = Some y"
    by (cases "g x") simp_all
  with Cons.prems
  have "foldM (\<lambda>x acc. Option.bind (g x) (\<lambda>y. Some (acc @ [y]))) xs (acc0 @ [y]) = Some out"
    by simp
  from Cons.IH [OF this] obtain zs where "out = (acc0 @ [y]) @ zs" and "map g xs = map Some zs"
    by blast
  then have "out = acc0 @ (y # zs) \<and> map g (x # xs) = map Some (y # zs)"
    using y by simp
  then show ?case by blast
qed

lemma map_eq_map_Some_nth:
  assumes "map g xs = map Some ys" and "i < length xs"
  shows "g (xs ! i) = Some (ys ! i)"
proof -
  have "length xs = length ys"
    using assms(1) by (metis length_map)
  then have "map g xs ! i = map Some ys ! i"
    using assms by simp
  then show ?thesis
    using assms(2) \<open>length xs = length ys\<close> by simp
qed

lemma map_Some_total:
  assumes "\<forall>x \<in> set xs. \<exists>y. g x = Some y"
  shows "\<exists>ys. map g xs = map Some ys"
  using assms
proof (induction xs)
  case Nil
  then show ?case by simp
next
  case (Cons x xs)
  then obtain y ys where "g x = Some y" "map g xs = map Some ys"
    by auto
  then have "map g (x # xs) = map Some (y # ys)"
    by simp
  then show ?case by blast
qed

subsection \<open>Gate control entries as text\<close>

lemma hex_nat_upper_small: "m < 16 \<Longrightarrow> hex_nat_upper m = [hex_digit_upper m]"
  by (subst hex_nat_upper.simps) simp

lemma format_02X_byte:
  assumes "0 \<le> n" and "n \<le> 255"
  shows "format_02X n = [hex_digit_upper (nat n div 16), hex_digit_upper (nat n mod 16)]"
proof (cases "nat n < 16")
  case True
  then show ?thesis
    using assms by (simp add: format_02X_def hex_nat_upper_small hex_digit_upper_def)
next
  case False
  have "nat n div 16 < 16"
    using assms by simp
  then have "hex_nat_upper (nat n) = [hex_digit_upper (nat n div 16), hex_digit_upper (nat n mod 16)]"
    using False by (subst hex_nat_upper.simps) (simp add: hex_nat_upper_small)
  then show ?thesis
    using assms by (simp add: format_02X_def)
qed

lemma format_gate_entry_dict:
  "format_gate_entry (NDict kvs) =
     (let sv = or_zero (dict_get kvs ''gate-states-value'' NNone);
          iv = or_zero (dict_get kvs ''time-interval-value'' NNone)
      in if dict_get kvs ''operation-name'' NNone = NStr ''sched:set-gate-states''
         then map_option (\<lambda>n. ''sched-entry S '' @ format_02X n @ '' '' @ py_str iv) (py_int sv)
         else Some (''sched-entry ? '' @ py_str sv @ '' '' @ py_str iv))"
  unfolding format_gate_entry_def py_get_dict
  by (cases "py_int (or_zero (dict_get kvs ''gate-states-value'' NNone))") (simp_all add: Let_def)

text \<open>
  C2. Every entry returned by \<^verbatim>\<open>get_gate_control_entries\<close> has its line at the
  same position of the formatted list. An entry whose operation is
  \<^verbatim>\<open>sched:set-gate-states\<close> is rendered with the letter S, its gate states in
  the format \<^verbatim>\<open>02X\<close>, which for a value between 0 and 255 is two upper-case
  hexadecimal digits, and its interval as it is; an entry with any other operation is
  rendered with a question mark and both values as they are. The entries are
  dictionaries, and the gate states of a set-gate-states entry convert to an integer.
\<close>

theorem gate_entries_formatted:
  assumes "get_gate_control_entries docs = Some entries"
    and "\<forall>e \<in> set entries. \<exists>kvs. e = NDict kvs \<and>
           (dict_get kvs ''operation-name'' NNone = NStr ''sched:set-gate-states'' \<longrightarrow>
              (\<exists>n. py_int (or_zero (dict_get kvs ''gate-states-value'' NNone)) = Some n))"
  shows "\<exists>out. get_gate_control_entries_formatted docs = Some out \<and> length out = length entries \<and>
     (\<forall>i < length entries. \<forall>kvs. entries ! i = NDict kvs \<longrightarrow>
        (let sv = or_zero (dict_get kvs ''gate-states-value'' NNone);
             iv = or_zero (dict_get kvs ''time-interval-value'' NNone)
         in if dict_get kvs ''operation-name'' NNone = NStr ''sched:set-gate-states''
            then \<exists>n. py_int sv = Some n \<and>
                   out ! i = ''sched-entry S '' @ format_02X n @ '' '' @ py_str iv \<and>
                   (0 \<le> n \<and> n \<le> 255 \<longrightarrow>
                      format_02X n
                        = [hex_digit_upper (nat n div 16), hex_digit_upper (nat n mod 16)])
            else out ! i = ''sched-entry ? '' @ py_str sv @ '' '' @ py_str iv))"
proof -
  have "\<forall>e \<in> set entries. \<exists>y. format_gate_entry e = Some y"
  proof
    fix e
    assume "e \<in> set entries"
    with assms(2) obtain kvs where e: "e = NDict kvs"
      and s: "dict_get kvs ''operation-name'' NNone = NStr ''sched:set-gate-states'' \<longrightarrow>
              (\<exists>n. py_int (or_zero (dict_get kvs ''gate-states-value'' NNone)) = Some n)"
      by blast
    show "\<exists>y. format_gate_entry e = Some y"
      using s unfolding e format_gate_entry_dict by (auto simp: Let_def)
  qed
  then obtain out where out: "map format_gate_entry entries = map Some out"
    using map_Some_total by blast
  then have len: "length out = length entries"
    by (metis length_map)
  have run: "get_gate_control_entries_formatted docs = Some out"
    using assms(1) foldM_collect_Some [OF out, of "[]"]
    by (simp add: get_gate_control_entries_formatted_def)
  have "\<forall>i < length entries. \<forall>kvs. entries ! i = NDict kvs \<longrightarrow>
        (let sv = or_zero (dict_get kvs ''gate-states-value'' NNone);
             iv = or_zero (dict_get kvs ''time-interval-value'' NNone)
         in if dict_get kvs ''operation-name'' NNone = NStr ''sched:set-gate-states''
            then \<exists>n. py_int sv = Some n \<and>
                   out ! i = ''sched-entry S '' @ format_02X n @ '' '' @ py_str iv \<and>
                   (0 \<le> n \<and> n \<le> 255 \<longrightarrow>
                      format_02X n
                        = [hex_digit_upper (nat n div 16), hex_digit_upper (nat n mod 16)])
            else out ! i = ''sched-entry ? '' @ py_str sv @ '' '' @ py_str iv)"
  proof (intro allI impI)
    fix i kvs
    assume i: "i < length entries" and e: "entries ! i = NDict kvs"
    have f: "format_gate_entry (NDict kvs) = Some (out ! i)"
      using map_eq_map_Some_nth [OF out i] e by simp
    have mem: "NDict kvs \<in> set entries"
      using i e by (metis nth_mem)
    show "let sv = or_zero (dict_get kvs ''gate-states-value'' NNone);
             iv = or_zero (dict_get kvs ''time-interval-value'' NNone)
         in if dict_get kvs ''operation-name'' NNone = NStr ''sched:set-gate-states''
            then \<exists>n. py_int sv = Some n \<and>
                   out ! i = ''sched-entry S '' @ format_02X n @ '' '' @ py_str iv \<and>
                   (0 \<le> n \<and> n \<le> 255 \<longrightarrow>
                      format_02X n
                        = [hex_digit_upper (nat n div 16), hex_digit_upper (nat n mod 16)])
            else out ! i = ''sched-entry ? '' @ py_str sv @ '' '' @ py_str iv"
    proof (cases "dict_get kvs ''operation-name'' NNone = NStr ''sched:set-gate-states''")
      case True
      with assms(2) mem obtain n
        where n: "py_int (or_zero (dict_get kvs ''gate-states-value'' NNone)) = Some n"
        by auto
      show ?thesis
        using f True n format_02X_byte [of n]
        by (simp add: format_gate_entry_dict Let_def)
    next
      case False
      then show ?thesis
        using f by (simp add: format_gate_entry_dict Let_def)
    qed
  qed
  with run len show ?thesis
    by blast
qed

lemmas gate_entries_simps =
  get_gate_control_entries_def gce_document_def gce_interface_def py_get_dict dict_get_def
  as_list_def Let_def

theorem gate_entries_formatted_witness:
  "get_gate_control_entries example_gate_documents = Some example_gate_entries
   \<and> get_gate_control_entries_formatted example_gate_documents
       = Some [''sched-entry S 0F 500000'', ''sched-entry ? 7 1000'']"
proof -
  have e: "get_gate_control_entries example_gate_documents = Some example_gate_entries"
    by (simp add: example_gate_documents_def example_gate_entries_def gate_entries_simps)
  have i15: "int_of_str ''15'' = Some 15"
    by (simp add: int_of_str_simps)
  have h: "\<forall>e \<in> set example_gate_entries. \<exists>kvs. e = NDict kvs \<and>
           (dict_get kvs ''operation-name'' NNone = NStr ''sched:set-gate-states'' \<longrightarrow>
              (\<exists>n. py_int (or_zero (dict_get kvs ''gate-states-value'' NNone)) = Some n))"
    by (simp add: example_gate_entries_def dict_get_def or_zero_def i15)
  from gate_entries_formatted [OF e h] obtain out
    where run: "get_gate_control_entries_formatted example_gate_documents = Some out"
      and len: "length out = length example_gate_entries"
      and lines: "\<forall>i < length example_gate_entries. \<forall>kvs. example_gate_entries ! i = NDict kvs \<longrightarrow>
        (let sv = or_zero (dict_get kvs ''gate-states-value'' NNone);
             iv = or_zero (dict_get kvs ''time-interval-value'' NNone)
         in if dict_get kvs ''operation-name'' NNone = NStr ''sched:set-gate-states''
            then \<exists>n. py_int sv = Some n \<and>
                   out ! i = ''sched-entry S '' @ format_02X n @ '' '' @ py_str iv \<and>
                   (0 \<le> n \<and> n \<le> 255 \<longrightarrow>
                      format_02X n
                        = [hex_digit_upper (nat n div 16), hex_digit_upper (nat n mod 16)])
            else out ! i = ''sched-entry ? '' @ py_str sv @ '' '' @ py_str iv)"
    by blast
  have l0: "out ! 0 = ''sched-entry S 0F 500000''"
    using lines [rule_format, of 0]
    by (auto simp: example_gate_entries_def dict_get_def or_zero_def i15 py_str_def
        hex_digit_upper_def)
  have l1: "out ! 1 = ''sched-entry ? 7 1000''"
    using lines [rule_format, of 1]
    by (simp add: example_gate_entries_def dict_get_def or_zero_def py_str_def)
  have "length out = 2"
    using len by (simp add: example_gate_entries_def)
  then have "out = [out ! 0, out ! 1]"
    by (cases out; cases "tl out") auto
  with l0 l1 run e show ?thesis
    by simp
qed

text \<open>
  A gate states value that \<^verbatim>\<open>int\<close> refuses makes the formatter raise: the digit 5
  after the separator U+001C.
\<close>

lemma format_gate_entry_separator:
  "format_gate_entry (NDict [(''operation-name'', NStr ''sched:set-gate-states''),
                             (''gate-states-value'', NStr [CHR 0x1C, CHR ''5'']),
                             (''time-interval-value'', NStr ''1000'')]) = None"
  by (simp add: format_gate_entry_dict dict_get_def or_zero_def Let_def int_of_str_separator)

subsection \<open>Entries with missing fields\<close>

lemma format_gate_entry_no_state:
  assumes "map_of kvs ''operation-name'' = Some (NStr ''sched:set-gate-states'')"
    and "map_of kvs ''gate-states-value'' = None"
  shows "format_gate_entry (NDict kvs)
     = Some (''sched-entry S 00 '' @ py_str (or_zero (dict_get kvs ''time-interval-value'' NNone)))"
proof -
  have op: "dict_get kvs ''operation-name'' NNone = NStr ''sched:set-gate-states''"
    using assms(1) by (simp add: dict_get_def)
  have sv: "or_zero (dict_get kvs ''gate-states-value'' NNone) = NStr ''0''"
    using assms(2) by (simp add: dict_get_def or_zero_def)
  have z: "int_of_str ''0'' = Some 0"
    by (simp add: int_of_str_simps)
  have x: "format_02X 0 = ''00''"
    by (simp add: number_text_simps)
  show ?thesis
    unfolding format_gate_entry_dict by (simp add: op sv z x Let_def)
qed

lemma format_gate_entry_no_interval:
  assumes "map_of kvs ''operation-name'' = Some (NStr ''sched:set-gate-states'')"
    and "map_of kvs ''time-interval-value'' = None"
  shows "format_gate_entry (NDict kvs)
     = map_option (\<lambda>n. ''sched-entry S '' @ format_02X n @ '' 0'')
         (py_int (or_zero (dict_get kvs ''gate-states-value'' NNone)))"
proof -
  have op: "dict_get kvs ''operation-name'' NNone = NStr ''sched:set-gate-states''"
    using assms(1) by (simp add: dict_get_def)
  have iv: "or_zero (dict_get kvs ''time-interval-value'' NNone) = NStr ''0''"
    using assms(2) by (simp add: dict_get_def or_zero_def)
  show ?thesis
    unfolding format_gate_entry_dict by (simp add: op iv Let_def py_str_def)
qed

text \<open>
  The formatted list exists, and holds at position \<open>i\<close> the line of entry \<open>i\<close>, as
  soon as entry \<open>i\<close> has a line and every other entry has one.
\<close>

lemma formatted_line_at:
  assumes "get_gate_control_entries docs = Some entries"
    and "i < length entries"
    and "format_gate_entry (entries ! i) = Some line"
    and "\<forall>j < length entries. j \<noteq> i \<longrightarrow> (\<exists>l. format_gate_entry (entries ! j) = Some l)"
  shows "\<exists>out. get_gate_control_entries_formatted docs = Some out
     \<and> length out = length entries \<and> out ! i = line"
proof -
  have "\<forall>e \<in> set entries. \<exists>y. format_gate_entry e = Some y"
  proof
    fix e
    assume "e \<in> set entries"
    then obtain j where j: "j < length entries" "entries ! j = e"
      by (metis in_set_conv_nth)
    show "\<exists>y. format_gate_entry e = Some y"
    proof (cases "j = i")
      case True
      then show ?thesis
        using assms(3) j(2) by simp
    next
      case False
      then show ?thesis
        using assms(4) j by blast
    qed
  qed
  then obtain out where out: "map format_gate_entry entries = map Some out"
    using map_Some_total by blast
  then have len: "length out = length entries"
    by (metis length_map)
  have run: "get_gate_control_entries_formatted docs = Some out"
    using assms(1) foldM_collect_Some [OF out, of "[]"]
    by (simp add: get_gate_control_entries_formatted_def)
  have "out ! i = line"
    using map_eq_map_Some_nth [OF out assms(2)] assms(3) by simp
  with run len show ?thesis
    by blast
qed

text \<open>
  C9. Entry \<open>i\<close> of the entries of the documents is a set-gate-states entry. When it
  has no gate states value, it is formatted, whatever its interval is, with the
  hexadecimal field 00. When it has no interval and its gate states convert to an
  integer, it is formatted with the interval 0. When it has neither, its line is
  \<^verbatim>\<open>sched-entry S 00 0\<close>. In each case the entry itself never raises, and when the
  other entries have lines too, \<^verbatim>\<open>get_gate_control_entries_formatted\<close> returns:
  its list has one line for every entry, that of entry \<open>i\<close> at position \<open>i\<close>.
\<close>

theorem gate_entry_missing_fields:
  assumes "get_gate_control_entries docs = Some entries"
    and "i < length entries" and "entries ! i = NDict kvs"
    and "map_of kvs ''operation-name'' = Some (NStr ''sched:set-gate-states'')"
    and "\<forall>j < length entries. j \<noteq> i \<longrightarrow> (\<exists>l. format_gate_entry (entries ! j) = Some l)"
  shows "(map_of kvs ''gate-states-value'' = None \<longrightarrow>
           format_gate_entry (entries ! i)
             = Some (''sched-entry S 00 ''
                     @ py_str (or_zero (dict_get kvs ''time-interval-value'' NNone)))
           \<and> (\<exists>out. get_gate_control_entries_formatted docs = Some out
                 \<and> length out = length entries
                 \<and> out ! i = ''sched-entry S 00 ''
                     @ py_str (or_zero (dict_get kvs ''time-interval-value'' NNone))))
    \<and> (map_of kvs ''time-interval-value'' = None \<longrightarrow>
         (\<forall>n. py_int (or_zero (dict_get kvs ''gate-states-value'' NNone)) = Some n \<longrightarrow>
           format_gate_entry (entries ! i) = Some (''sched-entry S '' @ format_02X n @ '' 0'')
           \<and> (\<exists>out. get_gate_control_entries_formatted docs = Some out
                 \<and> length out = length entries
                 \<and> out ! i = ''sched-entry S '' @ format_02X n @ '' 0'')))
    \<and> (map_of kvs ''gate-states-value'' = None \<and> map_of kvs ''time-interval-value'' = None \<longrightarrow>
           format_gate_entry (entries ! i) = Some ''sched-entry S 00 0''
           \<and> (\<exists>out. get_gate_control_entries_formatted docs = Some out
                 \<and> length out = length entries \<and> out ! i = ''sched-entry S 00 0''))"
proof -
  have a: "map_of kvs ''gate-states-value'' = None \<longrightarrow>
           format_gate_entry (entries ! i)
             = Some (''sched-entry S 00 ''
                     @ py_str (or_zero (dict_get kvs ''time-interval-value'' NNone)))
           \<and> (\<exists>out. get_gate_control_entries_formatted docs = Some out
                 \<and> length out = length entries
                 \<and> out ! i = ''sched-entry S 00 ''
                     @ py_str (or_zero (dict_get kvs ''time-interval-value'' NNone)))"
  proof
    assume "map_of kvs ''gate-states-value'' = None"
    from format_gate_entry_no_state [OF assms(4) this]
    have f: "format_gate_entry (entries ! i)
       = Some (''sched-entry S 00 '' @ py_str (or_zero (dict_get kvs ''time-interval-value'' NNone)))"
      using assms(3) by simp
    from formatted_line_at [OF assms(1,2) f assms(5)] f
    show "format_gate_entry (entries ! i)
             = Some (''sched-entry S 00 ''
                     @ py_str (or_zero (dict_get kvs ''time-interval-value'' NNone)))
           \<and> (\<exists>out. get_gate_control_entries_formatted docs = Some out
                 \<and> length out = length entries
                 \<and> out ! i = ''sched-entry S 00 ''
                     @ py_str (or_zero (dict_get kvs ''time-interval-value'' NNone)))"
      by blast
  qed
  have b: "map_of kvs ''time-interval-value'' = None \<longrightarrow>
         (\<forall>n. py_int (or_zero (dict_get kvs ''gate-states-value'' NNone)) = Some n \<longrightarrow>
           format_gate_entry (entries ! i) = Some (''sched-entry S '' @ format_02X n @ '' 0'')
           \<and> (\<exists>out. get_gate_control_entries_formatted docs = Some out
                 \<and> length out = length entries
                 \<and> out ! i = ''sched-entry S '' @ format_02X n @ '' 0''))"
  proof (intro impI allI)
    fix n
    assume t: "map_of kvs ''time-interval-value'' = None"
      and n: "py_int (or_zero (dict_get kvs ''gate-states-value'' NNone)) = Some n"
    have f: "format_gate_entry (entries ! i) = Some (''sched-entry S '' @ format_02X n @ '' 0'')"
      using format_gate_entry_no_interval [OF assms(4) t] n assms(3) by simp
    from formatted_line_at [OF assms(1,2) f assms(5)] f
    show "format_gate_entry (entries ! i) = Some (''sched-entry S '' @ format_02X n @ '' 0'')
           \<and> (\<exists>out. get_gate_control_entries_formatted docs = Some out
                 \<and> length out = length entries
                 \<and> out ! i = ''sched-entry S '' @ format_02X n @ '' 0'')"
      by blast
  qed
  have c: "map_of kvs ''gate-states-value'' = None \<and> map_of kvs ''time-interval-value'' = None \<longrightarrow>
           format_gate_entry (entries ! i) = Some ''sched-entry S 00 0''
           \<and> (\<exists>out. get_gate_control_entries_formatted docs = Some out
                 \<and> length out = length entries \<and> out ! i = ''sched-entry S 00 0'')"
  proof
    assume st: "map_of kvs ''gate-states-value'' = None \<and> map_of kvs ''time-interval-value'' = None"
    then have "py_str (or_zero (dict_get kvs ''time-interval-value'' NNone)) = ''0''"
      by (simp add: dict_get_def or_zero_def py_str_def)
    then have f: "format_gate_entry (entries ! i) = Some ''sched-entry S 00 0''"
      using format_gate_entry_no_state [OF assms(4)] st assms(3) by simp
    from formatted_line_at [OF assms(1,2) f assms(5)] f
    show "format_gate_entry (entries ! i) = Some ''sched-entry S 00 0''
           \<and> (\<exists>out. get_gate_control_entries_formatted docs = Some out
                 \<and> length out = length entries \<and> out ! i = ''sched-entry S 00 0'')"
      by blast
  qed
  show ?thesis
    using a b c by blast
qed

theorem gate_entry_missing_fields_witness:
  "get_gate_control_entries example_sparse_gate_documents = Some example_sparse_gate_entries
   \<and> get_gate_control_entries_formatted example_sparse_gate_documents
     = Some [''sched-entry S 00 700'', ''sched-entry S 0F 0'', ''sched-entry S 00 0'']"
proof -
  let ?k0 = "[(''operation-name'', NStr ''sched:set-gate-states''),
              (''time-interval-value'', NStr ''700'')]"
  let ?k1 = "[(''operation-name'', NStr ''sched:set-gate-states''),
              (''gate-states-value'', NStr ''15'')]"
  let ?k2 = "[(''operation-name'', NStr ''sched:set-gate-states'')]"
  have e: "get_gate_control_entries example_sparse_gate_documents = Some example_sparse_gate_entries"
    by (simp add: example_sparse_gate_documents_def example_sparse_gate_entries_def
        gate_entries_simps)
  have len: "length example_sparse_gate_entries = 3"
    by (simp add: example_sparse_gate_entries_def)
  have n0: "example_sparse_gate_entries ! 0 = NDict ?k0"
    and n1: "example_sparse_gate_entries ! 1 = NDict ?k1"
    and n2: "example_sparse_gate_entries ! 2 = NDict ?k2"
    by (simp_all add: example_sparse_gate_entries_def)
  have z: "int_of_str ''0'' = Some 0" and i15: "int_of_str ''15'' = Some 15"
    by (simp_all add: int_of_str_simps)
  have x: "format_02X 0 = ''00''" and xf: "format_02X 15 = ''0F''"
    by (simp_all add: number_text_simps)
  have f0: "format_gate_entry (NDict ?k0) = Some ''sched-entry S 00 700''"
    by (simp add: format_gate_entry_dict dict_get_def or_zero_def Let_def z x py_str_def)
  have f1: "format_gate_entry (NDict ?k1) = Some ''sched-entry S 0F 0''"
    by (simp add: format_gate_entry_dict dict_get_def or_zero_def Let_def i15 xf py_str_def)
  have f2: "format_gate_entry (NDict ?k2) = Some ''sched-entry S 00 0''"
    by (simp add: format_gate_entry_dict dict_get_def or_zero_def Let_def z x py_str_def)
  have others: "\<And>i. \<forall>j < length example_sparse_gate_entries. j \<noteq> i \<longrightarrow>
      (\<exists>l. format_gate_entry (example_sparse_gate_entries ! j) = Some l)"
  proof (intro allI impI)
    fix i j :: nat
    assume "j < length example_sparse_gate_entries"
    then have "j = 0 \<or> j = 1 \<or> j = 2"
      using len by auto
    then show "\<exists>l. format_gate_entry (example_sparse_gate_entries ! j) = Some l"
      using n0 n1 n2 f0 f1 f2 by auto
  qed
  have "0 < length example_sparse_gate_entries" "1 < length example_sparse_gate_entries"
    "2 < length example_sparse_gate_entries"
    using len by simp_all
  note t0 = gate_entry_missing_fields [OF e this(1) n0 _ others]
    and t1 = gate_entry_missing_fields [OF e this(2) n1 _ others]
    and t2 = gate_entry_missing_fields [OF e this(3) n2 _ others]
  from t0 obtain out where run: "get_gate_control_entries_formatted example_sparse_gate_documents
       = Some out"
    and l: "length out = 3" and l0: "out ! 0 = ''sched-entry S 00 700''"
    using len by (auto simp: dict_get_def or_zero_def py_str_def)
  from t1 have l1: "out ! 1 = ''sched-entry S 0F 0''"
    using run by (auto simp: dict_get_def or_zero_def i15 xf)
  from t2 have l2: "out ! 2 = ''sched-entry S 00 0''"
    using run by auto
  have "out = [out ! 0, out ! 1, out ! 2]"
    using l by (cases out; cases "tl out"; cases "tl (tl out)") (auto simp: eval_nat_numeral)
  with l0 l1 l2 run e show ?thesis
    by simp
qed
subsection \<open>Time-aware talkers\<close>

lemma cfg_mac_addresses_time_aware:
  "cfg_mac_addresses cfg v = Some v' \<Longrightarrow> time_aware v' = time_aware v"
  by (auto simp: cfg_mac_addresses_def split: bind_splits if_splits)

lemma cfg_vlan_tag_time_aware:
  "cfg_vlan_tag cfg v = Some v' \<Longrightarrow> time_aware v' = time_aware v"
  by (auto simp: cfg_vlan_tag_def split: bind_splits if_splits)

lemma cfg_ipv4_tuple_time_aware:
  "cfg_ipv4_tuple cfg v = Some v' \<Longrightarrow> time_aware v' = time_aware v"
  by (auto simp: cfg_ipv4_tuple_def split: bind_splits if_splits)

lemma nonzero_offset_None: "\<not> nonzero_offset NNone"
  by (simp add: nonzero_offset_def)

lemma cfg_time_aware_offset_time_aware:
  assumes "cfg_time_aware_offset cfg v = Some v'"
  shows "time_aware v' = (time_aware v \<or>
           (\<exists>kvs x. cfg = NDict kvs \<and> map_of kvs ''time-aware-offset'' = Some x \<and> nonzero_offset x))"
proof (cases cfg)
  case (NDict kvs)
  show ?thesis
  proof (cases "map_of kvs ''time-aware-offset''")
    case None
    then show ?thesis
      using assms NDict by (simp add: cfg_time_aware_offset_def py_contains_def)
  next
    case (Some x)
    then show ?thesis
      using assms NDict
      by (auto simp: cfg_time_aware_offset_def py_contains_def py_get_def split: if_splits)
  qed
qed (use assms in \<open>auto simp: cfg_time_aware_offset_def py_contains_def py_get_def
       split: bind_splits if_splits\<close>)

lemma cfg_time_aware_time_aware:
  assumes "cfg_time_aware cfg v = Some v'"
  shows "time_aware v' = (time_aware v \<or>
           (\<exists>kvs tb. cfg = NDict kvs \<and> map_of kvs ''time-aware'' = Some (NDict tb)
              \<and> (nonzero_offset (dict_get tb ''earliest-transmit-offset'' NNone)
                 \<or> nonzero_offset (dict_get tb ''latest-transmit-offset'' NNone))))"
proof (cases cfg)
  case (NDict kvs)
  show ?thesis
  proof (cases "map_of kvs ''time-aware''")
    case None
    then show ?thesis
      using assms NDict by (simp add: cfg_time_aware_def py_contains_def)
  next
    case (Some b)
    from assms NDict Some obtain tb where tb: "b = NDict tb"
      by (cases b) (simp_all add: cfg_time_aware_def py_contains_def py_index_def py_get_def)
    show ?thesis
      using assms NDict Some tb
      by (auto simp: cfg_time_aware_def py_contains_def py_index_def py_get_dict split: if_splits)
  qed
qed (use assms in \<open>auto simp: cfg_time_aware_def py_contains_def py_index_def
       split: bind_splits if_splits\<close>)

lemma offset_sources_exists:
  "(\<exists>x \<in> set (offset_sources cfg). nonzero_offset x) \<longleftrightarrow>
     (\<exists>kvs. cfg = NDict kvs \<and>
        ((\<exists>x. map_of kvs ''time-aware-offset'' = Some x \<and> nonzero_offset x)
         \<or> (\<exists>tb. map_of kvs ''time-aware'' = Some (NDict tb)
              \<and> (nonzero_offset (dict_get tb ''earliest-transmit-offset'' NNone)
                 \<or> nonzero_offset (dict_get tb ''latest-transmit-offset'' NNone)))))"
proof (cases cfg)
  case (NDict kvs)
  define A where "A = (\<exists>x. map_of kvs ''time-aware-offset'' = Some x \<and> nonzero_offset x)"
  define B where "B = (\<exists>tb. map_of kvs ''time-aware'' = Some (NDict tb)
              \<and> (nonzero_offset (dict_get tb ''earliest-transmit-offset'' NNone)
                 \<or> nonzero_offset (dict_get tb ''latest-transmit-offset'' NNone)))"
  have a: "(\<exists>x \<in> set (case map_of kvs ''time-aware-offset'' of None \<Rightarrow> [] | Some x \<Rightarrow> [x]).
             nonzero_offset x) = A"
    by (cases "map_of kvs ''time-aware-offset''") (simp_all add: A_def)
  have blk: "\<And>tb. (\<exists>x \<in> set ((case map_of tb ''earliest-transmit-offset'' of None \<Rightarrow> [] | Some x \<Rightarrow> [x])
                 @ (case map_of tb ''latest-transmit-offset'' of None \<Rightarrow> [] | Some x \<Rightarrow> [x])).
               nonzero_offset x)
          \<longleftrightarrow> (nonzero_offset (dict_get tb ''earliest-transmit-offset'' NNone)
                 \<or> nonzero_offset (dict_get tb ''latest-transmit-offset'' NNone))"
    by (auto simp: dict_get_def nonzero_offset_None split: option.splits)
  have b: "(\<exists>x \<in> set (case map_of kvs ''time-aware'' of
               Some (NDict tb) \<Rightarrow>
                 (case map_of tb ''earliest-transmit-offset'' of None \<Rightarrow> [] | Some x \<Rightarrow> [x])
                 @ (case map_of tb ''latest-transmit-offset'' of None \<Rightarrow> [] | Some x \<Rightarrow> [x])
             | _ \<Rightarrow> []). nonzero_offset x) = B"
  proof (cases "map_of kvs ''time-aware''")
    case None
    then show ?thesis by (simp add: B_def)
  next
    case (Some blk_node)
    then show ?thesis
      using blk by (cases blk_node) (simp_all add: B_def)
  qed
  have "(\<exists>x \<in> set (offset_sources cfg). nonzero_offset x) = (A \<or> B)"
    unfolding NDict offset_sources_def using a b by (simp add: bex_Un)
  then show ?thesis
    using NDict by (simp add: A_def B_def)
qed (simp_all add: offset_sources_def)

lemma cfg_step_time_aware:
  assumes "cfg_step cfg v = Some v'"
  shows "time_aware v' = (time_aware v \<or> (\<exists>x \<in> set (offset_sources cfg). nonzero_offset x))"
proof -
  from assms obtain v1 v2 v3 v4 where
    s: "cfg_mac_addresses cfg v = Some v1" "cfg_vlan_tag cfg v1 = Some v2"
       "cfg_ipv4_tuple cfg v2 = Some v3" "cfg_time_aware_offset cfg v3 = Some v4"
       "cfg_time_aware cfg v4 = Some v'"
    by (auto simp: cfg_step_def split: bind_splits)
  have "time_aware v3 = time_aware v"
    using s(1,2,3) cfg_mac_addresses_time_aware cfg_vlan_tag_time_aware cfg_ipv4_tuple_time_aware
    by metis
  then show ?thesis
    using cfg_time_aware_offset_time_aware [OF s(4)] cfg_time_aware_time_aware [OF s(5)]
    unfolding offset_sources_exists by blast
qed

lemma cfg_loop_time_aware:
  assumes "foldM cfg_step cfgs v = Some v'"
  shows "time_aware v' =
     (time_aware v \<or> (\<exists>cfg \<in> set cfgs. \<exists>x \<in> set (offset_sources cfg). nonzero_offset x))"
  using assms
proof (induction cfgs arbitrary: v)
  case Nil
  then show ?case by simp
next
  case (Cons cfg cfgs)
  from Cons.prems obtain w where w: "cfg_step cfg v = Some w" and rest: "foldM cfg_step cfgs w = Some v'"
    by (auto split: option.splits)
  show ?case
    using Cons.IH [OF rest] cfg_step_time_aware [OF w] by auto
qed

lemma talker_entry_time_aware:
  assumes "talker_entry talker = Some r" and "talker_config_list talker = Some cfgs"
  shows "dict_get r ''time_aware'' NNone
         = NBool (\<exists>cfg \<in> set cfgs. \<exists>x \<in> set (offset_sources cfg). nonzero_offset x)"
proof -
  from assms obtain v where v: "foldM cfg_step cfgs initial_talker_vars = Some v"
    and r: "dict_get r ''time_aware'' NNone = NBool (time_aware v)"
    by (auto simp: talker_entry_def dict_get_def split: bind_splits)
  show ?thesis
    using cfg_loop_time_aware [OF v] r by (simp add: initial_talker_vars_def)
qed

lemma talker_entry_config_list:
  assumes "talker_entry talker = Some r"
  shows "\<exists>cfgs. talker_config_list talker = Some cfgs"
  using assms by (auto simp: talker_entry_def split: bind_splits)

subsection \<open>The talkers of the documents\<close>

lemma foldM_concat: "foldM f (concat xss) s = foldM (\<lambda>xs. foldM f xs) xss s"
  by (induction xss arbitrary: s) (simp_all add: foldM_append split: option.splits)

lemma foldM_map: "foldM f (map g xs) s = foldM (\<lambda>x. f (g x)) xs s"
  by (induction xs arbitrary: s) (simp_all split: option.splits)

lemma foldM_refine:
  assumes "foldM f xs s = Some s'"
    and "\<And>x t t'. x \<in> set xs \<Longrightarrow> f x t = Some t' \<Longrightarrow> g x t = Some t'"
  shows "foldM g xs s = Some s'"
  using assms
proof (induction xs arbitrary: s)
  case Nil
  then show ?case by simp
next
  case (Cons x xs)
  from Cons.prems(1) obtain t where t: "f x s = Some t" and rest: "foldM f xs t = Some s'"
    by (auto split: option.splits)
  have g: "g x s = Some t"
    using Cons.prems(2) [of x s t] t by simp
  have "foldM g xs t = Some s'"
  proof (rule Cons.IH [OF rest])
    fix y u u'
    assume "y \<in> set xs" "f y u = Some u'"
    then show "g y u = Some u'"
      using Cons.prems(2) [of y u u'] by simp
  qed
  then show ?case
    using g by simp
qed

text \<open>
  A loop whose body is itself a loop over the items \<open>items x\<close> of the element is the
  one loop over the items of all elements.
\<close>

lemma foldM_flatten:
  assumes "foldM step xs s = Some s'"
    and "\<And>x t t'. x \<in> set xs \<Longrightarrow> step x t = Some t' \<Longrightarrow> foldM f (items x) t = Some t'"
  shows "foldM f (concat (map items xs)) s = Some s'"
proof -
  have "foldM (\<lambda>x. foldM f (items x)) xs s = Some s'"
    using foldM_refine [OF assms(1), of "\<lambda>x. foldM f (items x)"] assms(2) by blast
  then show ?thesis
    by (simp add: foldM_concat foldM_map)
qed

lemma py_get_Some:
  assumes "py_get obj key dflt = Some x"
  shows "\<exists>kvs. obj = NDict kvs \<and> x = dict_get kvs key dflt"
  using assms by (cases obj) (simp_all add: py_get_def dict_get_def)

lemma stream_step_talkers:
  assumes "stream_step stream result = Some result'"
  shows "foldM (\<lambda>p. talker_step (fst p) (snd p)) (stream_talkers stream) result = Some result'"
proof -
  from assms obtain sid where sid: "py_get stream ''stream-id'' NNone = Some sid"
    by (cases "py_get stream ''stream-id'' NNone") (simp_all add: stream_step_def)
  then obtain kvs where kvs: "stream = NDict kvs" and s: "sid = dict_get kvs ''stream-id'' NNone"
    using py_get_Some by blast
  show ?thesis
  proof (cases "truthy sid")
    case False
    then have "result' = result"
      using assms sid by (simp add: stream_step_def)
    moreover have "stream_talkers stream = []"
      using False s kvs by (simp add: stream_talkers_def dict_get_def split: option.splits)
    ultimately show ?thesis
      by simp
  next
    case True
    then have m: "map_of kvs ''stream-id'' = Some sid"
      using s by (cases "map_of kvs ''stream-id''") (simp_all add: dict_get_def)
    have "foldM (talker_step sid) (as_list (dict_get kvs ''talker'' (NList []))) result = Some result'"
      using assms sid True kvs by (simp add: stream_step_def py_get_dict)
    moreover have "stream_talkers stream
        = map (Pair sid) (as_list (dict_get kvs ''talker'' (NList [])))"
      using True m kvs by (simp add: stream_talkers_def sub_nodes_def)
    ultimately show ?thesis
      by (simp add: foldM_map)
  qed
qed

lemma cuc_step_talkers:
  assumes "cuc_step cuc result = Some result'"
  shows "foldM (\<lambda>p. talker_step (fst p) (snd p)) (cuc_talkers cuc) result = Some result'"
proof -
  from assms obtain x where x: "py_get cuc ''stream'' (NList []) = Some x"
    by (cases "py_get cuc ''stream'' (NList [])") (simp_all add: cuc_step_def)
  then obtain kvs where kvs: "cuc = NDict kvs" and s: "x = dict_get kvs ''stream'' (NList [])"
    using py_get_Some by blast
  have "foldM stream_step (sub_nodes cuc ''stream'') result = Some result'"
    using assms x kvs s by (simp add: cuc_step_def sub_nodes_def)
  then show ?thesis
    unfolding cuc_talkers_def using stream_step_talkers by (rule foldM_flatten)
qed

lemma domain_step_talkers:
  assumes "domain_step domain result = Some result'"
  shows "foldM (\<lambda>p. talker_step (fst p) (snd p)) (domain_talkers domain) result = Some result'"
proof -
  from assms obtain x where x: "py_get domain ''cuc'' (NList []) = Some x"
    by (cases "py_get domain ''cuc'' (NList [])") (simp_all add: domain_step_def)
  then obtain kvs where kvs: "domain = NDict kvs" and s: "x = dict_get kvs ''cuc'' (NList [])"
    using py_get_Some by blast
  have "foldM cuc_step (sub_nodes domain ''cuc'') result = Some result'"
    using assms x kvs s by (simp add: domain_step_def sub_nodes_def)
  then show ?thesis
    unfolding domain_talkers_def using cuc_step_talkers by (rule foldM_flatten)
qed

lemma document_step_talkers:
  assumes "document_step doc result = Some result'"
  shows "foldM (\<lambda>p. talker_step (fst p) (snd p)) (document_talkers doc) result = Some result'"
proof -
  from assms obtain c where c: "py_get doc ''cnc-config'' (NDict []) = Some c"
    by (cases "py_get doc ''cnc-config'' (NDict [])") (simp_all add: document_step_def)
  then obtain kvs where kvs: "doc = NDict kvs" and cv: "c = dict_get kvs ''cnc-config'' (NDict [])"
    using py_get_Some by blast
  from assms c obtain x where x: "py_get c ''domain'' (NList []) = Some x"
    by (cases "py_get c ''domain'' (NList [])") (simp_all add: document_step_def)
  then obtain cvs where cvs: "c = NDict cvs" and s: "x = dict_get cvs ''domain'' (NList [])"
    using py_get_Some by blast
  have "foldM domain_step (sub_nodes c ''domain'') result = Some result'"
    using assms c x cvs s by (simp add: document_step_def sub_nodes_def)
  then have "foldM (\<lambda>p. talker_step (fst p) (snd p))
               (concat (map domain_talkers (sub_nodes c ''domain''))) result = Some result'"
    using domain_step_talkers by (rule foldM_flatten)
  then show ?thesis
    using kvs cv by (simp add: document_talkers_def)
qed

lemma get_all_talker_stream_info_talkers:
  assumes "get_all_talker_stream_info docs = Some result"
  shows "foldM (\<lambda>p. talker_step (fst p) (snd p)) (documents_talkers docs) [] = Some result"
proof (cases "docs = []")
  case True
  then show ?thesis
    using assms by (simp add: get_all_talker_stream_info_def documents_talkers_def)
next
  case False
  then have "foldM document_step docs [] = Some result"
    using assms by (simp add: get_all_talker_stream_info_def)
  then show ?thesis
    unfolding documents_talkers_def using document_step_talkers by (rule foldM_flatten)
qed

text \<open>
  The loop over the talkers returns the records of all talkers, appended in order to
  the lists of their streams.
\<close>

lemma talker_loop_records:
  assumes "foldM (\<lambda>p. talker_step (fst p) (snd p)) pairs acc = Some result"
  shows "\<exists>records. map (\<lambda>p. talker_entry (snd p)) pairs = map Some records
     \<and> result = fold (\<lambda>(k, r) a. setdefault_append a k r) (zip (map fst pairs) records) acc"
  using assms
proof (induction pairs arbitrary: acc)
  case Nil
  then show ?case by simp
next
  case (Cons p ps)
  from Cons.prems obtain acc1 where a: "talker_step (fst p) (snd p) acc = Some acc1"
    and rest: "foldM (\<lambda>p. talker_step (fst p) (snd p)) ps acc1 = Some result"
    by (auto split: option.splits)
  from a obtain e where e: "talker_entry (snd p) = Some e"
    and acc1: "acc1 = setdefault_append acc (fst p) e"
    by (cases "talker_entry (snd p)") (auto simp: talker_step_def split: if_splits)
  from Cons.IH [OF rest] obtain records where
    r: "map (\<lambda>p. talker_entry (snd p)) ps = map Some records"
       "result = fold (\<lambda>(k, r) a. setdefault_append a k r) (zip (map fst ps) records) acc1"
    by blast
  have "map (\<lambda>p. talker_entry (snd p)) (p # ps) = map Some (e # records)"
    using e r(1) by simp
  moreover have "result = fold (\<lambda>(k, r) a. setdefault_append a k r)
                            (zip (map fst (p # ps)) (e # records)) acc"
    using r(2) acc1 by simp
  ultimately show ?case
    by blast
qed

lemma has_record_Nil: "has_record [] k r = False"
  by (simp add: has_record_def)

lemma has_record_Cons:
  "has_record ((k', rs) # result) k r
   \<longleftrightarrow> (key_norm k' = key_norm k \<and> r \<in> set rs) \<or> has_record result k r"
  by (auto simp: has_record_def)

lemma has_record_setdefault_append: "has_record (setdefault_append result k r) k r"
  by (induction result k r rule: setdefault_append.induct)
     (simp_all add: has_record_Nil has_record_Cons)

lemma has_record_kept:
  "has_record result k r \<Longrightarrow> has_record (setdefault_append result k' r') k r"
  by (induction result k' r' rule: setdefault_append.induct)
     (auto simp: has_record_Nil has_record_Cons)

lemma has_record_origin:
  "has_record (setdefault_append result k' r') k r
   \<Longrightarrow> has_record result k r \<or> (key_norm k' = key_norm k \<and> r' = r)"
  by (induction result k' r' rule: setdefault_append.induct)
     (auto simp: has_record_Nil has_record_Cons split: if_splits)

lemma has_record_fold_kept:
  "has_record acc k r \<Longrightarrow> has_record (fold (\<lambda>(k, r) a. setdefault_append a k r) prs acc) k r"
  by (induction prs arbitrary: acc) (auto simp: has_record_kept)

lemma has_record_fold:
  "(k, r) \<in> set prs \<Longrightarrow> has_record (fold (\<lambda>(k, r) a. setdefault_append a k r) prs acc) k r"
proof (induction prs arbitrary: acc)
  case Nil
  then show ?case by simp
next
  case (Cons p prs)
  show ?case
  proof (cases "p = (k, r)")
    case True
    then show ?thesis
      using has_record_fold_kept [OF has_record_setdefault_append] by simp
  next
    case False
    then have "(k, r) \<in> set prs"
      using Cons.prems by simp
    then show ?thesis
      using Cons.IH by simp
  qed
qed

lemma has_record_fold_origin:
  "has_record (fold (\<lambda>(k, r) a. setdefault_append a k r) prs acc) k r
   \<Longrightarrow> has_record acc k r \<or> (\<exists>(k', r') \<in> set prs. key_norm k' = key_norm k \<and> r' = r)"
proof (induction prs arbitrary: acc)
  case Nil
  then show ?case by simp
next
  case (Cons p prs)
  obtain k' r' where p: "p = (k', r')"
    by (cases p)
  from Cons.prems
  have "has_record (fold (\<lambda>(k, r) a. setdefault_append a k r) prs (setdefault_append acc k' r')) k r"
    by (simp add: p)
  from Cons.IH [OF this]
  have "has_record (setdefault_append acc k' r') k r
        \<or> (\<exists>(k', r') \<in> set prs. key_norm k' = key_norm k \<and> r' = r)" .
  then show ?case
    using has_record_origin [of acc k' r' k r] by (auto simp: p)
qed

lemma zip_records_talker:
  assumes "map (\<lambda>p. talker_entry (snd p)) pairs = map Some records"
    and "(sid, r) \<in> set (zip (map fst pairs) records)"
  shows "\<exists>talker. (sid, talker) \<in> set pairs \<and> talker_entry talker = Some r"
proof -
  have len: "length records = length pairs"
    using assms(1) by (metis length_map)
  from assms(2) obtain i where i: "i < length pairs" "sid = fst (pairs ! i)" "r = records ! i"
    using len by (auto simp: set_zip)
  have "talker_entry (snd (pairs ! i)) = Some r"
    using map_eq_map_Some_nth [OF assms(1) i(1)] i(3) by simp
  moreover have "(sid, snd (pairs ! i)) \<in> set pairs"
    using i(1,2) by simp
  ultimately show ?thesis
    by blast
qed

lemma zip_records_record:
  assumes "map (\<lambda>p. talker_entry (snd p)) pairs = map Some records"
    and "(sid, talker) \<in> set pairs"
  shows "\<exists>r. talker_entry talker = Some r \<and> (sid, r) \<in> set (zip (map fst pairs) records)"
proof -
  have len: "length records = length pairs"
    using assms(1) by (metis length_map)
  from assms(2) obtain i where i: "i < length pairs" "pairs ! i = (sid, talker)"
    by (metis in_set_conv_nth)
  have "talker_entry talker = Some (records ! i)"
    using map_eq_map_Some_nth [OF assms(1) i(1)] i(2) by simp
  moreover have "(sid, records ! i) \<in> set (zip (map fst pairs) records)"
    using i len by (force simp: set_zip)
  ultimately show ?thesis
    by blast
qed

text \<open>
  C1. Every record in the result of \<^verbatim>\<open>get_all_talker_stream_info\<close> is the record of
  a talker of the documents, listed under the stream of that talker, and its field
  \<open>time_aware\<close> is true exactly when some entry of the configuration list of that
  talker has a \<^verbatim>\<open>time-aware-offset\<close>, \<^verbatim>\<open>earliest-transmit-offset\<close> or
  \<^verbatim>\<open>latest-transmit-offset\<close> that is a true value and whose stripped text is none
  of \<open>0\<close>, \<open>0.0\<close> and the empty string; otherwise the field is false. Every talker
  of the documents has its record in the result, under its stream. The result is
  exactly the records of the talkers of the documents, appended in document order to
  the lists of their streams.
\<close>

theorem talker_time_aware_iff:
  assumes "get_all_talker_stream_info docs = Some result"
  shows "(\<forall>(stream_id, records) \<in> set result. \<forall>r \<in> set records.
            \<exists>(sid, talker) \<in> set (documents_talkers docs). \<exists>cfgs.
              key_norm sid = key_norm stream_id \<and> talker_entry talker = Some r
              \<and> talker_config_list talker = Some cfgs
              \<and> dict_get r ''time_aware'' NNone
                  = NBool (\<exists>cfg \<in> set cfgs. \<exists>x \<in> set (offset_sources cfg).
                             truthy x \<and> strip (py_str x) \<notin> {''0'', ''0.0'', ''''}))
    \<and> (\<forall>(sid, talker) \<in> set (documents_talkers docs).
          \<exists>r. talker_entry talker = Some r \<and> has_record result sid r)
    \<and> (\<exists>records. map (\<lambda>p. talker_entry (snd p)) (documents_talkers docs) = map Some records
          \<and> result = fold (\<lambda>(k, r) a. setdefault_append a k r)
                       (zip (map fst (documents_talkers docs)) records) [])"
proof -
  define pairs where "pairs = documents_talkers docs"
  from talker_loop_records [OF get_all_talker_stream_info_talkers [OF assms]]
  obtain records where m: "map (\<lambda>p. talker_entry (snd p)) pairs = map Some records"
    and res: "result = fold (\<lambda>(k, r) a. setdefault_append a k r) (zip (map fst pairs) records) []"
    unfolding pairs_def by blast
  have a: "\<forall>(stream_id, records) \<in> set result. \<forall>r \<in> set records.
            \<exists>(sid, talker) \<in> set pairs. \<exists>cfgs.
              key_norm sid = key_norm stream_id \<and> talker_entry talker = Some r
              \<and> talker_config_list talker = Some cfgs
              \<and> dict_get r ''time_aware'' NNone
                  = NBool (\<exists>cfg \<in> set cfgs. \<exists>x \<in> set (offset_sources cfg).
                             truthy x \<and> strip (py_str x) \<notin> {''0'', ''0.0'', ''''})"
  proof (intro ballI, clarify)
    fix stream_id rs r
    assume "(stream_id, rs) \<in> set result" and "r \<in> set rs"
    then have "has_record result stream_id r"
      by (auto simp: has_record_def)
    then have "\<exists>(k', r') \<in> set (zip (map fst pairs) records). key_norm k' = key_norm stream_id \<and> r' = r"
      using has_record_fold_origin [of "zip (map fst pairs) records" "[]" stream_id r]
      unfolding res by (simp add: has_record_Nil)
    then obtain sid where sid: "(sid, r) \<in> set (zip (map fst pairs) records)"
      and k: "key_norm sid = key_norm stream_id"
      by auto
    from zip_records_talker [OF m sid] obtain talker
      where t: "(sid, talker) \<in> set pairs" and e: "talker_entry talker = Some r"
      by blast
    from talker_entry_config_list [OF e] obtain cfgs where c: "talker_config_list talker = Some cfgs"
      by blast
    have "dict_get r ''time_aware'' NNone
            = NBool (\<exists>cfg \<in> set cfgs. \<exists>x \<in> set (offset_sources cfg).
                       truthy x \<and> strip (py_str x) \<notin> {''0'', ''0.0'', ''''})"
      using talker_entry_time_aware [OF e c] by (simp add: nonzero_offset_def)
    with t k e c
    show "\<exists>(sid, talker) \<in> set pairs. \<exists>cfgs.
              key_norm sid = key_norm stream_id \<and> talker_entry talker = Some r
              \<and> talker_config_list talker = Some cfgs
              \<and> dict_get r ''time_aware'' NNone
                  = NBool (\<exists>cfg \<in> set cfgs. \<exists>x \<in> set (offset_sources cfg).
                             truthy x \<and> strip (py_str x) \<notin> {''0'', ''0.0'', ''''})"
      by blast
  qed
  have b: "\<forall>(sid, talker) \<in> set pairs. \<exists>r. talker_entry talker = Some r \<and> has_record result sid r"
  proof (intro ballI, clarify)
    fix sid talker
    assume "(sid, talker) \<in> set pairs"
    from zip_records_record [OF m this] obtain r where e: "talker_entry talker = Some r"
      and z: "(sid, r) \<in> set (zip (map fst pairs) records)"
      by blast
    have "has_record result sid r"
      unfolding res using z by (rule has_record_fold)
    with e show "\<exists>r. talker_entry talker = Some r \<and> has_record result sid r"
      by blast
  qed
  show ?thesis
    using a b m res unfolding pairs_def by blast
qed

lemmas talker_info_simps =
  get_all_talker_stream_info_def document_step_def domain_step_def cuc_step_def stream_step_def
  talker_step_def talker_entry_def talker_config_list_def talker_interface_list_def
  cfg_step_def cfg_mac_addresses_def cfg_vlan_tag_def cfg_ipv4_tuple_def cfg_time_aware_offset_def
  cfg_time_aware_def py_contains_def py_index_def py_get_def as_list_def replace_mac_def
  replace_hyphen_colon_def initial_talker_vars_def nonzero_offset_def py_str_def strip_def
  is_space_def

theorem talker_time_aware_iff_witness:
  "get_all_talker_stream_info example_talker_documents
     = Some [(NStr ''de-ad-be-ef-00-01:00-05'', [example_talker_record, example_idle_talker_record])]
   \<and> documents_talkers example_talker_documents
       = [(NStr ''de-ad-be-ef-00-01:00-05'', example_talker),
          (NStr ''de-ad-be-ef-00-01:00-05'', example_idle_talker)]
   \<and> talker_entry example_talker = Some example_talker_record
   \<and> talker_entry example_idle_talker = Some example_idle_talker_record
   \<and> dict_get example_talker_record ''time_aware'' NNone = NBool True
   \<and> dict_get example_idle_talker_record ''time_aware'' NNone = NBool False"
proof -
  let ?sid = "NStr ''de-ad-be-ef-00-01:00-05''"
  have te: "talker_entry example_talker = Some example_talker_record"
    by (simp add: example_talker_def example_talker_record_def talker_info_simps)
  have ti: "talker_entry example_idle_talker = Some example_idle_talker_record"
    by (simp add: example_idle_talker_def example_idle_talker_record_def talker_info_simps)
  have ev: "get_all_talker_stream_info example_talker_documents
     = Some [(?sid, [example_talker_record, example_idle_talker_record])]"
    by (simp add: example_talker_documents_def get_all_talker_stream_info_def document_step_def
        domain_step_def cuc_step_def stream_step_def talker_step_def py_get_def as_list_def te ti)
  have tk: "documents_talkers example_talker_documents
       = [(?sid, example_talker), (?sid, example_idle_talker)]"
    by (simp add: example_talker_documents_def documents_talkers_def document_talkers_def
        domain_talkers_def cuc_talkers_def stream_talkers_def sub_nodes_def dict_get_def
        as_list_def)
  have cl: "talker_config_list example_talker
       = Some [NDict [(''ieee802-vlan-tag'',
                        NDict [(''vlan-id'', NStr ''22''), (''priority-code-point'', NStr ''2'')])],
               NDict [(''time-aware-offset'', NStr ''78600'')]]"
    by (simp add: example_talker_def talker_config_list_def talker_interface_list_def py_get_def
        as_list_def)
  have ci: "talker_config_list example_idle_talker
       = Some [NDict [(''time-aware-offset'', NStr ''0''),
                      (''time-aware'',
                         NDict [(''earliest-transmit-offset'', NStr '' 0.0 ''),
                                (''latest-transmit-offset'', NStr '''')])]]"
    by (simp add: example_idle_talker_def talker_config_list_def talker_interface_list_def
        py_get_def as_list_def)
  have ne: "example_talker_record \<noteq> example_idle_talker_record"
    by (simp add: example_talker_record_def example_idle_talker_record_def)
  from talker_time_aware_iff [OF ev]
  have s: "\<forall>(stream_id, records) \<in> set [(?sid, [example_talker_record, example_idle_talker_record])].
           \<forall>r \<in> set records.
            \<exists>(sid, talker) \<in> set [(?sid, example_talker), (?sid, example_idle_talker)]. \<exists>cfgs.
              key_norm sid = key_norm stream_id \<and> talker_entry talker = Some r
              \<and> talker_config_list talker = Some cfgs
              \<and> dict_get r ''time_aware'' NNone
                  = NBool (\<exists>cfg \<in> set cfgs. \<exists>x \<in> set (offset_sources cfg).
                             truthy x \<and> strip (py_str x) \<notin> {''0'', ''0.0'', ''''})"
    unfolding tk by blast
  have s1: "dict_get example_talker_record ''time_aware'' NNone
     = NBool (\<exists>cfg \<in> set [NDict [(''ieee802-vlan-tag'',
                        NDict [(''vlan-id'', NStr ''22''), (''priority-code-point'', NStr ''2'')])],
               NDict [(''time-aware-offset'', NStr ''78600'')]].
               \<exists>x \<in> set (offset_sources cfg).
                  truthy x \<and> strip (py_str x) \<notin> {''0'', ''0.0'', ''''})"
    using s te ti cl ci ne by auto
  have s2: "dict_get example_idle_talker_record ''time_aware'' NNone
     = NBool (\<exists>cfg \<in> set [NDict [(''time-aware-offset'', NStr ''0''),
                      (''time-aware'',
                         NDict [(''earliest-transmit-offset'', NStr '' 0.0 ''),
                                (''latest-transmit-offset'', NStr '''')])]].
               \<exists>x \<in> set (offset_sources cfg).
                  truthy x \<and> strip (py_str x) \<notin> {''0'', ''0.0'', ''''})"
    using s te ti cl ci ne by auto
  have t1: "dict_get example_talker_record ''time_aware'' NNone = NBool True"
    unfolding s1 by (simp add: offset_sources_def py_str_def strip_def is_space_def)
  have t2: "dict_get example_idle_talker_record ''time_aware'' NNone = NBool False"
    unfolding s2 by (simp add: offset_sources_def py_str_def strip_def is_space_def)
  show ?thesis
    using ev tk te ti t1 t2 by simp
qed
subsection \<open>Classification of talkers\<close>

lemma update_fresh_key: "k \<notin> fst ` set al \<Longrightarrow> AList.update k v al = al @ [(k, v)]"
  by (induction al) auto

lemma filter_fold_distinct:
  assumes "distinct (map fst m)" and "fst ` set m \<inter> fst ` set acc = {}"
  shows "fold (\<lambda>(stream_id, talkers) result.
             let filtered = filter P talkers
             in if filtered \<noteq> [] then AList.update stream_id filtered result else result) m acc
         = acc @ filter (\<lambda>(s, ts). ts \<noteq> []) (map (\<lambda>(s, ts). (s, filter P ts)) m)"
  using assms
proof (induction m arbitrary: acc)
  case Nil
  then show ?case by simp
next
  case (Cons p m)
  obtain s ts where p: "p = (s, ts)"
    by (cases p)
  have fresh: "s \<notin> fst ` set acc"
    using Cons.prems(2) p by auto
  have d: "distinct (map fst m)" and sm: "s \<notin> fst ` set m"
    using Cons.prems(1) p by auto
  show ?case
  proof (cases "filter P ts = []")
    case True
    have "fst ` set m \<inter> fst ` set acc = {}"
      using Cons.prems(2) by auto
    from Cons.IH [OF d this] True show ?thesis
      by (simp add: p)
  next
    case False
    have "fst ` set m \<inter> fst ` set (acc @ [(s, filter P ts)]) = {}"
      using Cons.prems(2) sm by auto
    from Cons.IH [OF d this] False show ?thesis
      by (simp add: p update_fresh_key [OF fresh])
  qed
qed

lemma map_of_filtered:
  assumes "distinct (map fst m)"
  shows "map_of (filter (\<lambda>(s, ts). ts \<noteq> []) (map (\<lambda>(s, ts). (s, filter P ts)) m)) sid
         = (case map_of m sid of None \<Rightarrow> None
            | Some ts \<Rightarrow> if filter P ts = [] then None else Some (filter P ts))"
  using assms
proof (induction m)
  case Nil
  then show ?case by simp
next
  case (Cons p m)
  obtain s ts where p: "p = (s, ts)"
    by (cases p)
  have d: "distinct (map fst m)" and sm: "s \<notin> fst ` set m"
    using Cons.prems p by auto
  have none: "map_of m s = None"
    using sm by (simp add: map_of_eq_None_iff)
  show ?case
  proof (cases "sid = s")
    case True
    then show ?thesis
      using Cons.IH [OF d] none by (simp add: p)
  next
    case False
    then show ?thesis
      using Cons.IH [OF d] by (simp add: p)
  qed
qed

lemma talkers_of_filtered:
  assumes "distinct (map fst m)"
  shows "talkers_of (filter (\<lambda>(s, ts). ts \<noteq> []) (map (\<lambda>(s, ts). (s, filter P ts)) m)) sid
         = filter P (talkers_of m sid)"
  unfolding talkers_of_def map_of_filtered [OF assms]
  by (simp split: option.splits)

lemma time_aware_closed_form:
  assumes "distinct (map fst m)"
  shows "get_vlan_tagged_time_aware_talker_info m
         = filter (\<lambda>(s, ts). ts \<noteq> [])
             (map (\<lambda>(s, ts). (s, filter (\<lambda>t. truthy (dict_get t ''vlan_tag'' (NBool False))
                                       \<and> truthy (dict_get t ''time_aware'' (NBool False))) ts)) m)"
  unfolding get_vlan_tagged_time_aware_talker_info_def
  using filter_fold_distinct [OF assms, of "[]"] by simp

lemma non_time_aware_closed_form:
  assumes "distinct (map fst m)"
  shows "get_vlan_tagged_non_time_aware_talker_info m
         = filter (\<lambda>(s, ts). ts \<noteq> [])
             (map (\<lambda>(s, ts). (s, filter (\<lambda>t. truthy (dict_get t ''vlan_tag'' (NBool False))
                                       \<and> \<not> truthy (dict_get t ''time_aware'' (NBool False))) ts)) m)"
  unfolding get_vlan_tagged_non_time_aware_talker_info_def
  using filter_fold_distinct [OF assms, of "[]"] by simp

text \<open>
  C5. For a talker map (a dictionary, so its keys are distinct) the talkers of a
  stream in the time-aware result are those of the input whose \<open>vlan_tag\<close> and
  \<open>time_aware\<close> are both true, in their order; the talkers of a stream in the other
  result are those whose \<open>vlan_tag\<close> is true and whose \<open>time_aware\<close> is false. No
  talker is in both results, and no stream of either result has an empty list.
\<close>

theorem vlan_talker_partition:
  assumes "distinct (map fst m)"
    and "ta = get_vlan_tagged_time_aware_talker_info m"
    and "nta = get_vlan_tagged_non_time_aware_talker_info m"
  shows "(\<forall>sid. talkers_of ta sid
            = filter (\<lambda>t. truthy (dict_get t ''vlan_tag'' (NBool False))
                          \<and> truthy (dict_get t ''time_aware'' (NBool False))) (talkers_of m sid))
    \<and> (\<forall>sid. talkers_of nta sid
            = filter (\<lambda>t. truthy (dict_get t ''vlan_tag'' (NBool False))
                          \<and> \<not> truthy (dict_get t ''time_aware'' (NBool False))) (talkers_of m sid))
    \<and> (\<forall>t sid sid'. \<not> (t \<in> set (talkers_of ta sid) \<and> t \<in> set (talkers_of nta sid')))
    \<and> (\<forall>sid ts. (sid, ts) \<in> set ta \<or> (sid, ts) \<in> set nta \<longrightarrow> ts \<noteq> [])
    \<and> (\<forall>sid. (sid \<in> fst ` set ta \<longleftrightarrow> talkers_of ta sid \<noteq> [])
            \<and> (sid \<in> fst ` set nta \<longleftrightarrow> talkers_of nta sid \<noteq> []))"
proof -
  let ?P = "\<lambda>t. truthy (dict_get t ''vlan_tag'' (NBool False))
                 \<and> truthy (dict_get t ''time_aware'' (NBool False))"
  let ?Q = "\<lambda>t. truthy (dict_get t ''vlan_tag'' (NBool False))
                 \<and> \<not> truthy (dict_get t ''time_aware'' (NBool False))"
  have ta: "ta = filter (\<lambda>(s, ts). ts \<noteq> []) (map (\<lambda>(s, ts). (s, filter ?P ts)) m)"
    unfolding assms(2) by (rule time_aware_closed_form [OF assms(1)])
  have nta: "nta = filter (\<lambda>(s, ts). ts \<noteq> []) (map (\<lambda>(s, ts). (s, filter ?Q ts)) m)"
    unfolding assms(3) by (rule non_time_aware_closed_form [OF assms(1)])
  have a: "\<forall>sid. talkers_of ta sid = filter ?P (talkers_of m sid)"
    unfolding ta using talkers_of_filtered [OF assms(1)] by blast
  have b: "\<forall>sid. talkers_of nta sid = filter ?Q (talkers_of m sid)"
    unfolding nta using talkers_of_filtered [OF assms(1)] by blast
  have c: "\<forall>t sid sid'. \<not> (t \<in> set (talkers_of ta sid) \<and> t \<in> set (talkers_of nta sid'))"
    using a b by auto
  have d: "\<forall>sid ts. (sid, ts) \<in> set ta \<or> (sid, ts) \<in> set nta \<longrightarrow> ts \<noteq> []"
    unfolding ta nta by auto
  have e: "\<forall>sid. (sid \<in> fst ` set ta \<longleftrightarrow> talkers_of ta sid \<noteq> [])
            \<and> (sid \<in> fst ` set nta \<longleftrightarrow> talkers_of nta sid \<noteq> [])"
  proof (intro allI conjI)
    fix sid
    show "sid \<in> fst ` set ta \<longleftrightarrow> talkers_of ta sid \<noteq> []"
    proof (cases "map_of ta sid")
      case None
      then show ?thesis
        using None by (simp add: talkers_of_def map_of_eq_None_iff [symmetric])
    next
      case (Some ts)
      then have "(sid, ts) \<in> set ta"
        by (rule map_of_SomeD)
      then show ?thesis
        using d Some by (force simp: talkers_of_def)
    qed
    show "sid \<in> fst ` set nta \<longleftrightarrow> talkers_of nta sid \<noteq> []"
    proof (cases "map_of nta sid")
      case None
      then show ?thesis
        using None by (simp add: talkers_of_def map_of_eq_None_iff [symmetric])
    next
      case (Some ts)
      then have "(sid, ts) \<in> set nta"
        by (rule map_of_SomeD)
      then show ?thesis
        using d Some by (force simp: talkers_of_def)
    qed
  qed
  show ?thesis
    using a b c d e by blast
qed

theorem vlan_talker_partition_witness:
  "distinct (map fst sample_all_talker_info)
   \<and> talkers_of (get_vlan_tagged_time_aware_talker_info sample_all_talker_info) ''stream1''
       = [[(''vlan_tag'', NBool True), (''time_aware'', NBool True), (''interface_name'', NStr ''eth0'')]]
   \<and> talkers_of (get_vlan_tagged_non_time_aware_talker_info sample_all_talker_info) ''stream1''
       = [[(''vlan_tag'', NBool True), (''time_aware'', NBool False), (''interface_name'', NStr ''eth1'')]]
   \<and> ''stream2'' \<notin> fst ` set (get_vlan_tagged_non_time_aware_talker_info sample_all_talker_info)"
proof -
  have d: "distinct (map fst sample_all_talker_info)"
    by (simp add: sample_all_talker_info_def)
  note p = vlan_talker_partition [OF d refl refl]
  have s1: "talkers_of sample_all_talker_info ''stream1''
      = [[(''vlan_tag'', NBool True), (''time_aware'', NBool True), (''interface_name'', NStr ''eth0'')],
         [(''vlan_tag'', NBool True), (''time_aware'', NBool False), (''interface_name'', NStr ''eth1'')],
         [(''vlan_tag'', NBool False), (''time_aware'', NBool True), (''interface_name'', NStr ''eth2'')]]"
    by (simp add: sample_all_talker_info_def talkers_of_def)
  have s2: "talkers_of sample_all_talker_info ''stream2''
      = [[(''vlan_tag'', NBool True), (''time_aware'', NBool True), (''interface_name'', NStr ''enp1s0'')],
         [(''vlan_tag'', NBool False), (''time_aware'', NBool False), (''interface_name'', NStr ''enp2s0'')]]"
    by (simp add: sample_all_talker_info_def talkers_of_def)
  have a: "talkers_of (get_vlan_tagged_time_aware_talker_info sample_all_talker_info) ''stream1''
       = [[(''vlan_tag'', NBool True), (''time_aware'', NBool True), (''interface_name'', NStr ''eth0'')]]"
    using p by (simp add: s1 dict_get_def)
  have b: "talkers_of (get_vlan_tagged_non_time_aware_talker_info sample_all_talker_info) ''stream1''
       = [[(''vlan_tag'', NBool True), (''time_aware'', NBool False), (''interface_name'', NStr ''eth1'')]]"
    using p by (simp add: s1 dict_get_def)
  have "talkers_of (get_vlan_tagged_non_time_aware_talker_info sample_all_talker_info) ''stream2'' = []"
    using p by (simp add: s2 dict_get_def)
  then have c: "''stream2'' \<notin> fst ` set (get_vlan_tagged_non_time_aware_talker_info sample_all_talker_info)"
    using p by blast
  show ?thesis
    using d a b c by blast
qed
subsection \<open>Repeated child tags\<close>

lemma element_value_not_list: "snd (element_to_dict c) \<noteq> NList xs"
  by (cases c) (simp add: element_to_dict.simps Let_def)

lemma add_child_other:
  assumes "t' \<noteq> t"
  shows "map_of (add_child (t', v) node) t = map_of node t"
  using assms
  by (auto simp: add_child_def update_conv' split: option.splits node.splits)

lemma add_child_same:
  assumes "map_of node t = folded_value ws" and "\<forall>w \<in> set ws. \<forall>xs. w \<noteq> NList xs"
  shows "map_of (add_child (t, v) node) t = folded_value (ws @ [v])"
proof (cases ws)
  case Nil
  then show ?thesis
    using assms(1) by (simp add: add_child_def folded_value_def update_conv')
next
  case (Cons w ws')
  show ?thesis
  proof (cases ws')
    case Nil
    have "\<forall>xs. w \<noteq> NList xs"
      using assms(2) Cons by simp
    then show ?thesis
      using assms(1) Cons Nil
      by (cases w) (simp_all add: add_child_def folded_value_def update_conv')
  next
    case (Cons w' ws'')
    then show ?thesis
      using assms(1) \<open>ws = w # ws'\<close>
      by (simp add: add_child_def folded_value_def update_conv')
  qed
qed

lemma fold_add_child:
  assumes "\<forall>p \<in> set ps. \<forall>xs. snd p \<noteq> NList xs" and "\<forall>w \<in> set ws. \<forall>xs. w \<noteq> NList xs"
    and "map_of node t = folded_value ws"
  shows "map_of (fold add_child ps node) t
         = folded_value (ws @ map snd (filter (\<lambda>p. fst p = t) ps))"
  using assms
proof (induction ps arbitrary: node ws)
  case Nil
  then show ?case by simp
next
  case (Cons p ps)
  obtain t' v where p: "p = (t', v)"
    by (cases p)
  have rest: "\<forall>p \<in> set ps. \<forall>xs. snd p \<noteq> NList xs"
    using Cons.prems(1) by simp
  show ?case
  proof (cases "t' = t")
    case True
    have v: "\<forall>xs. v \<noteq> NList xs"
      using Cons.prems(1) p by simp
    have "map_of (add_child (t, v) node) t = folded_value (ws @ [v])"
      using add_child_same [OF Cons.prems(3) Cons.prems(2)] .
    moreover have "\<forall>w \<in> set (ws @ [v]). \<forall>xs. w \<noteq> NList xs"
      using Cons.prems(2) v by simp
    ultimately have "map_of (fold add_child ps (add_child (t, v) node)) t
         = folded_value ((ws @ [v]) @ map snd (filter (\<lambda>p. fst p = t) ps))"
      using Cons.IH [OF rest] by blast
    then show ?thesis
      using True by (simp add: p)
  next
    case False
    have "map_of (add_child (t', v) node) t = folded_value ws"
      using add_child_other [OF False] Cons.prems(3) by simp
    then have "map_of (fold add_child ps (add_child (t', v) node)) t
         = folded_value (ws @ map snd (filter (\<lambda>p. fst p = t) ps))"
      using Cons.IH [OF rest Cons.prems(2)] by blast
    then show ?thesis
      using False by (simp add: p)
  qed
qed

lemma attributes_other:
  assumes "\<forall>k. t \<noteq> CHR ''@'' # k"
  shows "map_of (fold (\<lambda>(k, v) node. AList.update (''@'' @ k) (NStr v) node) attrib acc) t
         = map_of acc t"
  using assms
proof (induction attrib arbitrary: acc)
  case Nil
  then show ?case by simp
next
  case (Cons a attrib)
  obtain k v where a: "a = (k, v)"
    by (cases a)
  have "t \<noteq> CHR ''@'' # k"
    using Cons.prems by blast
  then have "map_of (AList.update (''@'' @ k) (NStr v) acc) t = map_of acc t"
    by (simp add: update_conv')
  then show ?case
    using Cons.IH [OF Cons.prems] by (simp add: a)
qed

lemma fold_children:
  "fold (\<lambda>child node. add_child (element_to_dict child) node) children node
   = fold add_child (map element_to_dict children) node"
  by (simp add: fold_map comp_def)

text \<open>
  C7. Under a parent element, a child tag that is neither \<open>#text\<close> nor the key of
  an attribute (no XML name starts with \<open>@\<close> or \<open>#\<close>) and that occurs two or more
  times maps to the sequence of the converted values of those children in document
  order; a tag that occurs once maps to the converted value itself, which is not a
  sequence.
\<close>

theorem repeated_child_tags:
  assumes "t \<noteq> ''#text''" and "\<forall>k. t \<noteq> CHR ''@'' # k"
    and "vs = child_values e t" and "vs \<noteq> []"
  shows "\<exists>kvs. snd (element_to_dict e) = NDict kvs
    \<and> (2 \<le> length vs \<longrightarrow> map_of kvs t = Some (NList vs))
    \<and> (length vs = 1 \<longrightarrow> map_of kvs t = Some (hd vs) \<and> (\<forall>xs. hd vs \<noteq> NList xs))"
proof -
  obtain etag attrib etext children where e: "e = Element etag attrib etext children"
    by (cases e)
  define node0 where "node0 = (if attrib \<noteq> []
                   then fold (\<lambda>(k, v) node. AList.update (''@'' @ k) (NStr v) node) attrib []
                   else [])"
  define node1 where "node1 = (if children \<noteq> []
                   then fold (\<lambda>child node. add_child (element_to_dict child) node) children node0
                   else node0)"
  define body where "body = (case etext of None \<Rightarrow> [] | Some s \<Rightarrow> if s \<noteq> [] then strip s else [])"
  have vs: "vs = map snd (filter (\<lambda>p. fst p = t) (map element_to_dict children))"
    using assms(3) by (simp add: child_values_def e)
  then have ch: "children \<noteq> []"
    using assms(4) by auto
  have n0: "map_of node0 t = folded_value []"
    using attributes_other [OF assms(2), of attrib "[]"] by (simp add: node0_def folded_value_def)
  have nl: "\<forall>p \<in> set (map element_to_dict children). \<forall>xs. snd p \<noteq> NList xs"
    using element_value_not_list by auto
  have "map_of node1 t = folded_value ([] @ vs)"
    unfolding vs using ch fold_add_child [OF nl _ n0] by (simp add: node1_def fold_children)
  then have n1: "map_of node1 t = folded_value vs"
    by simp
  then have ne: "node1 \<noteq> []"
    using assms(4) by (cases vs) (auto simp: folded_value_def split: list.splits)
  define kvs where "kvs = (if body \<noteq> [] then AList.update ''#text'' (NStr body) node1 else node1)"
  have r: "snd (element_to_dict e) = NDict kvs"
    using ch ne
    by (simp add: e element_to_dict.simps Let_def kvs_def body_def node1_def node0_def)
  have k: "map_of kvs t = folded_value vs"
    using n1 assms(1) by (simp add: kvs_def update_conv')
  have two: "2 \<le> length vs \<longrightarrow> map_of kvs t = Some (NList vs)"
    using k by (cases vs; cases "tl vs") (auto simp: folded_value_def)
  have "\<forall>v \<in> set vs. \<forall>xs. v \<noteq> NList xs"
  proof (intro ballI allI)
    fix v xs
    assume "v \<in> set vs"
    then obtain c where "v = snd (element_to_dict c)"
      unfolding vs by auto
    then show "v \<noteq> NList xs"
      using element_value_not_list by simp
  qed
  then have one: "length vs = 1 \<longrightarrow> map_of kvs t = Some (hd vs) \<and> (\<forall>xs. hd vs \<noteq> NList xs)"
    using k by (cases vs) (auto simp: folded_value_def)
  show ?thesis
    using r two one by blast
qed

theorem repeated_child_tags_witness:
  "element_to_dict example_element
     = (''p'', NDict [(''a'', NList [NStr ''1'', NStr ''2'']), (''b'', NStr ''3'')])
   \<and> child_values example_element ''a'' = [NStr ''1'', NStr ''2'']
   \<and> child_values example_element ''b'' = [NStr ''3'']
   \<and> map_of [(''a'', NList [NStr ''1'', NStr ''2'']), (''b'', NStr ''3'')] ''a''
       = Some (NList [NStr ''1'', NStr ''2''])
   \<and> map_of [(''a'', NList [NStr ''1'', NStr ''2'']), (''b'', NStr ''3'')] ''b'' = Some (NStr ''3'')"
proof -
  have leaf: "\<And>tg s. s \<noteq> [] \<Longrightarrow> strip s = s \<Longrightarrow> element_to_dict (Element tg [] (Some s) [])
      = (strip_namespace tg, NStr s)"
    by (simp add: element_to_dict.simps)
  have s: "strip ''1'' = ''1''" "strip ''2'' = ''2''" "strip ''3'' = ''3''"
    by (simp_all add: strip_def is_space_def)
  have ev: "element_to_dict example_element
     = (''p'', NDict [(''a'', NList [NStr ''1'', NStr ''2'']), (''b'', NStr ''3'')])"
    by (simp add: example_element_def element_to_dict.simps [of _ _ _ "_ # _"] leaf s
        strip_namespace_def add_child_def)
  have ca: "child_values example_element ''a'' = [NStr ''1'', NStr ''2'']"
    by (simp add: child_values_def example_element_def leaf s strip_namespace_def)
  have cb: "child_values example_element ''b'' = [NStr ''3'']"
    by (simp add: child_values_def example_element_def leaf s strip_namespace_def)
  have a: "\<forall>k. ''a'' \<noteq> CHR ''@'' # k" "''a'' \<noteq> ''#text''"
    and b: "\<forall>k. ''b'' \<noteq> CHR ''@'' # k" "''b'' \<noteq> ''#text''"
    by simp_all
  from repeated_child_tags [OF a(2) a(1) ca [symmetric]]
  have "map_of [(''a'', NList [NStr ''1'', NStr ''2'']), (''b'', NStr ''3'')] ''a''
       = Some (NList [NStr ''1'', NStr ''2''])"
    by (simp add: ev)
  moreover from repeated_child_tags [OF b(2) b(1) cb [symmetric]]
  have "map_of [(''a'', NList [NStr ''1'', NStr ''2'']), (''b'', NStr ''3'')] ''b'' = Some (NStr ''3'')"
    by (simp add: ev)
  ultimately show ?thesis
    using ev ca cb by blast
qed
subsection \<open>Universal parser\<close>

lemma lower_config_yaml: "lower ''Config.YAML'' = ''config.yaml''"
  by (simp add: lower_def lower_char_def char_of_def bit_Suc_0_iff)

lemma splitext_config_yaml: "splitext_ext ''config.yaml'' = ''.yaml''"
  by (simp add: splitext_ext_def)

lemma lower_missing_xml: "lower ''missing.xml'' = ''missing.xml''"
  by (simp add: lower_def lower_char_def)

lemma splitext_missing_xml: "splitext_ext ''missing.xml'' = ''.xml''"
  by (simp add: splitext_ext_def)

lemma yaml_parse_failed: "yaml_parse e p = (None, ds) \<Longrightarrow> ds = []"
  by (auto simp: yaml_parse_def Let_def split: option.splits)

lemma convert_roots_result: "convert_roots limit roots acc = (Some r, ds) \<Longrightarrow> ds = r"
  by (induction roots arbitrary: acc) (auto split: option.splits)

lemma xml_parse_result: "xml_parse e p = (Some r, ds) \<Longrightarrow> ds = r"
  using convert_roots_result by (auto simp: xml_parse_def split: option.splits)

lemma yaml_parse_result: "yaml_parse e p = (Some r, ds) \<Longrightarrow> ds = r"
  by (auto simp: yaml_parse_def Let_def split: option.splits)

lemma parse_again:
  "parse e (snd (parse e s p)) p = parse e s p"
proof (cases "select_parser (splitext_ext (lower p))")
  case None
  then show ?thesis
    by (simp add: parse_def)
next
  case (Some parser)
  show ?thesis
  proof (cases parser)
    case XML
    obtain r ds where x: "xml_parse e p = (r, ds)"
      by (cases "xml_parse e p")
    show ?thesis
      using Some XML x xml_parse_result [of e p _ ds]
      by (cases r) (auto simp: parse_def Let_def)
  next
    case YAML
    obtain r ds where x: "yaml_parse e p = (r, ds)"
      by (cases "yaml_parse e p")
    show ?thesis
      using Some YAML x yaml_parse_result [of e p _ ds]
      by (cases r) (auto simp: parse_def Let_def)
  next
    case YML
    obtain r ds where x: "yaml_parse e p = (r, ds)"
      by (cases "yaml_parse e p")
    show ?thesis
      using Some YML x yaml_parse_result [of e p _ ds]
      by (cases r) (auto simp: parse_def Let_def)
  qed
qed

lemma parse_cached:
  "case parse e s p of
     (Some ds, s') \<Rightarrow> documents s' = ds
        \<and> current_parser s' = select_parser (splitext_ext (lower p))
        \<and> (case current_parser s' of Some parser \<Rightarrow> parser_documents s' parser = ds | None \<Rightarrow> False)
   | (None, s') \<Rightarrow> documents s' = documents s"
proof (cases "select_parser (splitext_ext (lower p))")
  case None
  then show ?thesis
    by (simp add: parse_def)
next
  case (Some parser)
  show ?thesis
  proof (cases parser)
    case XML
    obtain r ds where x: "xml_parse e p = (r, ds)"
      by (cases "xml_parse e p")
    show ?thesis
      using Some XML x xml_parse_result [of e p _ ds]
      by (cases r) (auto simp: parse_def Let_def)
  next
    case YAML
    obtain r ds where x: "yaml_parse e p = (r, ds)"
      by (cases "yaml_parse e p")
    show ?thesis
      using Some YAML x yaml_parse_result [of e p _ ds]
      by (cases r) (auto simp: parse_def Let_def)
  next
    case YML
    obtain r ds where x: "yaml_parse e p = (r, ds)"
      by (cases "yaml_parse e p")
    show ?thesis
      using Some YML x yaml_parse_result [of e p _ ds]
      by (cases r) (auto simp: parse_def Let_def)
  qed
qed

text \<open>
  C8. \<^verbatim>\<open>refresh\<close> returns what \<^verbatim>\<open>parse\<close> returns and leaves the state that
  \<^verbatim>\<open>parse\<close> leaves; after a call that returns, the cached documents and the
  documents of the selected parser are the documents returned. A \<^verbatim>\<open>refresh\<close>
  of the same file in the same environment after a \<^verbatim>\<open>parse\<close> returns the same
  documents and leaves the state as it is.
\<close>

theorem refresh_is_parse:
  "refresh e s p = parse e s p
   \<and> refresh e (snd (parse e s p)) p = (fst (parse e s p), snd (parse e s p))
   \<and> (case refresh e s p of
        (Some ds, s') \<Rightarrow> documents s' = ds
           \<and> current_parser s' = select_parser (splitext_ext (lower p))
           \<and> (case current_parser s' of Some parser \<Rightarrow> parser_documents s' parser = ds
               | None \<Rightarrow> False)
      | (None, s') \<Rightarrow> documents s' = documents s)"
  using parse_again [where e = e and s = s and p = p] parse_cached [where e = e and s = s and p = p]
  by (simp add: refresh_def)

theorem refresh_is_parse_witness:
  "parse example_env new_universal_parser ''Config.YAML''
     = (Some [NDict [(''chronos-domain'', NStr ''1'')]],
        new_universal_parser\<lparr>yaml_documents := [NDict [(''chronos-domain'', NStr ''1'')]],
           current_parser := Some YAML,
           documents := [NDict [(''chronos-domain'', NStr ''1'')]]\<rparr>)
   \<and> refresh example_env
        (new_universal_parser\<lparr>yaml_documents := [NDict [(''chronos-domain'', NStr ''1'')]],
           current_parser := Some YAML,
           documents := [NDict [(''chronos-domain'', NStr ''1'')]]\<rparr>) ''Config.YAML''
     = (Some [NDict [(''chronos-domain'', NStr ''1'')]],
        new_universal_parser\<lparr>yaml_documents := [NDict [(''chronos-domain'', NStr ''1'')]],
           current_parser := Some YAML,
           documents := [NDict [(''chronos-domain'', NStr ''1'')]]\<rparr>)"
proof -
  have p: "parse example_env new_universal_parser ''Config.YAML''
     = (Some [NDict [(''chronos-domain'', NStr ''1'')]],
        new_universal_parser\<lparr>yaml_documents := [NDict [(''chronos-domain'', NStr ''1'')]],
           current_parser := Some YAML,
           documents := [NDict [(''chronos-domain'', NStr ''1'')]]\<rparr>)"
    by (simp add: parse_def lower_config_yaml splitext_config_yaml select_parser_def
        yaml_parse_def example_env_def new_universal_parser_def Let_def)
  show ?thesis
    using refresh_is_parse [of example_env new_universal_parser "''Config.YAML''"]
    by (simp add: p)
qed

subsection \<open>A parser that never parsed\<close>

text \<open>
  The loop over the roots returns the documents of all roots when no root nests deeper
  than the interpreter allows; when it raises, some root does, and the documents of the
  roots before the first such root are left behind.
\<close>

lemma convert_roots_all:
  assumes "\<forall>child \<in> set roots. element_depth child \<le> limit"
  shows "convert_roots limit roots acc
     = (Some (acc @ map (\<lambda>child. NDict [element_to_dict child]) roots),
        acc @ map (\<lambda>child. NDict [element_to_dict child]) roots)"
  using assms
  by (induction roots arbitrary: acc) (simp_all add: element_to_dict_call_def)

lemma convert_roots_raises:
  assumes "convert_roots limit roots acc = (None, ds)"
  shows "\<exists>before child rest. roots = before @ child # rest \<and> limit < element_depth child
     \<and> (\<forall>b \<in> set before. element_depth b \<le> limit)
     \<and> ds = acc @ map (\<lambda>child. NDict [element_to_dict child]) before"
  using assms
proof (induction roots arbitrary: acc)
  case Nil
  then show ?case by simp
next
  case (Cons c cs)
  show ?case
  proof (cases "element_depth c \<le> limit")
    case True
    then have "convert_roots limit cs (acc @ [NDict [element_to_dict c]]) = (None, ds)"
      using Cons.prems by (simp add: element_to_dict_call_def)
    from Cons.IH [OF this] obtain before child rest where
      r: "cs = before @ child # rest" "limit < element_depth child"
         "\<forall>b \<in> set before. element_depth b \<le> limit"
         "ds = (acc @ [NDict [element_to_dict c]])
                @ map (\<lambda>child. NDict [element_to_dict child]) before"
      by blast
    have "c # cs = (c # before) @ child # rest"
      using r(1) by simp
    moreover have "\<forall>b \<in> set (c # before). element_depth b \<le> limit"
      using r(3) True by simp
    moreover have "ds = acc @ map (\<lambda>child. NDict [element_to_dict child]) (c # before)"
      using r(4) by simp
    ultimately show ?thesis
      using r(2) by blast
  next
    case False
    then have "ds = acc"
      using Cons.prems by (simp add: element_to_dict_call_def)
    then have "c # cs = [] @ c # cs \<and> limit < element_depth c
       \<and> (\<forall>b \<in> set []. element_depth b \<le> limit)
       \<and> ds = acc @ map (\<lambda>child. NDict [element_to_dict child]) []"
      using False by simp
    then show ?thesis
      by blast
  qed
qed

text \<open>
  A call of \<^verbatim>\<open>parse\<close> that raises on a parser without documents leaves documents
  behind in one case only: the file was read and parsed as XML, and the conversion of
  one of its roots exceeded the recursion limit after the roots before it had been
  converted.
\<close>

lemma xml_parse_raises:
  assumes "xml_parse e p = (None, ds)"
  shows "ds = [] \<or> (\<exists>content root before child rest.
            read_file e p = Some content
            \<and> fromstring e (''<root>'' @ content @ ''</root>'') = Some root
            \<and> element_children root = before @ child # rest
            \<and> recursion_limit e < element_depth child
            \<and> ds = map (\<lambda>c. NDict [element_to_dict c]) before)"
proof (cases "read_file e p")
  case None
  then show ?thesis
    using assms by (simp add: xml_parse_def)
next
  case (Some content)
  show ?thesis
  proof (cases "fromstring e (''<root>'' @ content @ ''</root>'')")
    case None
    then show ?thesis
      using assms Some by (simp add: xml_parse_def)
  next
    case (Some root)
    then have "convert_roots (recursion_limit e) (element_children root) [] = (None, ds)"
      using assms \<open>read_file e p = Some content\<close> by (simp add: xml_parse_def)
    from convert_roots_raises [OF this] obtain before child rest where
      "element_children root = before @ child # rest" "recursion_limit e < element_depth child"
      "ds = map (\<lambda>c. NDict [element_to_dict c]) before"
      by auto
    then show ?thesis
      using Some \<open>read_file e p = Some content\<close> by blast
  qed
qed

lemma parse_raises:
  assumes "parse e s p = (None, s')"
    and "xml_documents s = []" and "yaml_documents s = []" and "yml_documents s = []"
  shows "yaml_documents s' = [] \<and> yml_documents s' = []
     \<and> (xml_documents s' = [] \<or> (\<exists>content root before child rest.
            read_file e p = Some content
            \<and> fromstring e (''<root>'' @ content @ ''</root>'') = Some root
            \<and> element_children root = before @ child # rest
            \<and> recursion_limit e < element_depth child
            \<and> xml_documents s' = map (\<lambda>c. NDict [element_to_dict c]) before))"
proof (cases "select_parser (splitext_ext (lower p))")
  case None
  then have "s' = s"
    using assms(1) by (simp add: parse_def)
  then show ?thesis
    using assms(2-4) by simp
next
  case (Some parser)
  show ?thesis
  proof (cases parser)
    case XML
    obtain r ds where x: "xml_parse e p = (r, ds)"
      by (cases "xml_parse e p")
    have "r = None \<and> s' = s\<lparr>current_parser := Some XML, xml_documents := ds\<rparr>"
      using assms(1) Some XML x by (cases r) (simp_all add: parse_def)
    then show ?thesis
      using xml_parse_raises [of e p ds] x assms(3,4) by auto
  next
    case YAML
    obtain r ds where x: "yaml_parse e p = (r, ds)"
      by (cases "yaml_parse e p")
    have "r = None \<and> s' = s\<lparr>current_parser := Some YAML, yaml_documents := ds\<rparr>"
      using assms(1) Some YAML x by (cases r) (simp_all add: parse_def)
    then show ?thesis
      using yaml_parse_failed [of e p ds] x assms(2,4) by auto
  next
    case YML
    obtain r ds where x: "yaml_parse e p = (r, ds)"
      by (cases "yaml_parse e p")
    have "r = None \<and> s' = s\<lparr>current_parser := Some YML, yml_documents := ds\<rparr>"
      using assms(1) Some YML x by (cases r) (simp_all add: parse_def)
    then show ?thesis
      using yaml_parse_failed [of e p ds] x assms(2,3) by auto
  qed
qed

lemma element_depth_nested: "element_depth (nested n) = Suc n"
  by (induction n) simp_all

lemma lower_deep_xml: "lower ''deep.xml'' = ''deep.xml''"
  by (simp add: lower_def lower_char_def)

lemma splitext_deep_xml: "splitext_ext ''deep.xml'' = ''.xml''"
  by (simp add: splitext_ext_def)

lemma fresh_parser_no_helper:
  "has_chronos_domain new_universal_parser = False
   \<and> get_dictionary_helper new_universal_parser = None"
  by (simp add: has_chronos_domain_def get_dictionary_helper_def new_universal_parser_def)

text \<open>
  C10. The claim: on a parser on which no call of \<^verbatim>\<open>parse\<close> has returned yet,
  \<^verbatim>\<open>has_chronos_domain\<close> is false and \<^verbatim>\<open>get_dictionary_helper\<close> is
  \<^verbatim>\<open>None\<close>. The code breaks it. A new parser is asked for \<^verbatim>\<open>deep.xml\<close>, whose
  first root holds the marker and whose second root nests deeper than the interpreter
  allows: the call raises, after \<^verbatim>\<open>current_parser\<close> was assigned and the document
  of the first root was appended. No call has returned, and on the state left behind
  \<^verbatim>\<open>has_chronos_domain\<close> is true and \<^verbatim>\<open>get_dictionary_helper\<close> returns a helper,
  bound to the empty cached documents.
\<close>

theorem failed_parse_leaves_marker:
  "parse deep_env new_universal_parser ''deep.xml''
     = (None, new_universal_parser\<lparr>xml_documents := [NDict [(''chronos-domain'', NStr ''1'')]],
                 current_parser := Some XML\<rparr>)
   \<and> never_parsed (new_universal_parser\<lparr>xml_documents := [NDict [(''chronos-domain'', NStr ''1'')]],
                 current_parser := Some XML\<rparr>)
   \<and> has_chronos_domain (new_universal_parser\<lparr>xml_documents := [NDict [(''chronos-domain'', NStr ''1'')]],
                 current_parser := Some XML\<rparr>) = True
   \<and> get_dictionary_helper (new_universal_parser\<lparr>xml_documents := [NDict [(''chronos-domain'', NStr ''1'')]],
                 current_parser := Some XML\<rparr>) = Some []"
proof -
  have m: "element_to_dict (Element ''chronos-domain'' [] (Some ''1'') [])
     = (''chronos-domain'', NStr ''1'')"
    by (simp add: element_to_dict.simps strip_namespace_def strip_def is_space_def)
  have c: "convert_roots 1000 [Element ''chronos-domain'' [] (Some ''1'') [], nested 3000] []
     = (None, [NDict [(''chronos-domain'', NStr ''1'')]])"
    by (simp add: element_to_dict_call_def element_depth_nested m)
  have x: "xml_parse deep_env ''deep.xml'' = (None, [NDict [(''chronos-domain'', NStr ''1'')]])"
    using c by (simp add: xml_parse_def deep_env_def del: convert_roots.simps)
  have p: "parse deep_env new_universal_parser ''deep.xml''
     = (None, new_universal_parser\<lparr>xml_documents := [NDict [(''chronos-domain'', NStr ''1'')]],
                 current_parser := Some XML\<rparr>)"
    by (simp add: parse_def lower_deep_xml splitext_deep_xml select_parser_def
        new_universal_parser_def x)
  have n: "never_parsed (new_universal_parser\<lparr>xml_documents := [NDict [(''chronos-domain'', NStr ''1'')]],
                 current_parser := Some XML\<rparr>)"
    using never_parsed.failed_parse [OF never_parsed.fresh p] .
  have l: "lower ''chronos-domain'' = ''chronos-domain''"
    by (simp add: lower_def lower_char_def)
  have h: "has_chronos_domain (new_universal_parser\<lparr>xml_documents := [NDict [(''chronos-domain'', NStr ''1'')]],
                 current_parser := Some XML\<rparr>) = True"
    by (simp add: has_chronos_domain_def parser_has_chronos_domain_def l)
  have g: "get_dictionary_helper (new_universal_parser\<lparr>xml_documents := [NDict [(''chronos-domain'', NStr ''1'')]],
                 current_parser := Some XML\<rparr>) = Some []"
    unfolding get_dictionary_helper_def h by (simp add: new_universal_parser_def)
  show ?thesis
    using p n h g by simp
qed
subsection \<open>Schedule commands\<close>

lemma fold_append_each: "fold (\<lambda>x acc. acc @ [g x]) xs acc0 = acc0 @ map g xs"
  by (induction xs arbitrary: acc0) simp_all

lemma fold_append_blocks: "fold (\<lambda>x acc. acc @ g x) xs acc0 = acc0 @ concat (map g xs)"
  by (induction xs arbitrary: acc0) simp_all

lemma length_concat_uniform:
  assumes "\<forall>b \<in> set bs. length b = n"
  shows "length (concat bs) = length bs * n"
  using assms by (induction bs) simp_all

lemma nth_concat_uniform:
  assumes "\<forall>b \<in> set bs. length b = n" and "k < length bs" and "j < n"
  shows "concat bs ! (k * n + j) = bs ! k ! j"
  using assms
proof (induction bs arbitrary: k)
  case Nil
  then show ?case by simp
next
  case (Cons b bs)
  have lb: "length b = n"
    using Cons.prems(1) by simp
  show ?case
  proof (cases k)
    case 0
    then show ?thesis
      using lb Cons.prems(3) by (simp add: nth_append)
  next
    case (Suc k')
    have "concat bs ! (k' * n + j) = bs ! k' ! j"
      using Cons.IH [of k'] Cons.prems Suc by simp
    moreover have "Suc k' * n + j = n + (k' * n + j)"
      by simp
    ultimately show ?thesis
      using lb Suc by (simp add: nth_append)
  qed
qed

lemma create_tc_qdisc_gcl_command_blocks:
  "create_tc_qdisc_gcl_command now interfaces gcl num_tc base_time map_str queues_str handle_id
       flags txtime_delay delta =
     concat (map (\<lambda>iface.
        taprio_command iface gcl num_tc (case base_time of None \<Rightarrow> now | Some t \<Rightarrow> t)
          (case map_str of None \<Rightarrow> ''0 1 2 3'' @ concat (replicate 12 '' 0'') | Some m \<Rightarrow> m)
          (case queues_str of None \<Rightarrow> ''1@0 1@1 1@2 1@3'' | Some q \<Rightarrow> q)
          (case handle_id of None \<Rightarrow> ''100'' | Some h \<Rightarrow> h) flags txtime_delay
        # map (\<lambda>q. etf_command iface (case handle_id of None \<Rightarrow> ''100'' | Some h \<Rightarrow> h) q delta)
            [1..num_tc]) interfaces)"
proof -
  have inner: "\<And>iface h c commands.
      fold (\<lambda>q commands. commands @ [etf_command iface h q delta]) [1..num_tc] (commands @ [c])
      = commands @ (c # map (\<lambda>q. etf_command iface h q delta) [1..num_tc])"
    by (simp add: fold_append_each)
  show ?thesis
    unfolding create_tc_qdisc_gcl_command_def Let_def inner
    by (simp add: fold_append_blocks)
qed

lemma upto_nth_from_one:
  assumes "1 \<le> q" and "q \<le> n"
  shows "[1..n] ! (nat q - 1) = q"
proof -
  have "nat q - 1 = nat (q - 1)"
    using assms by simp
  moreover have "[1..n] ! nat (q - 1) = 1 + (q - 1)"
    using assms by (simp add: nth_upto)
  ultimately show ?thesis by simp
qed

text \<open>
  C6. With at least one traffic class, the commands of each interface form one block
  of \<open>1 + num_tc\<close> commands, in the order of the interfaces: the taprio command of
  the interface, then for each class \<open>q\<close> from 1 to \<open>num_tc\<close> the etf command
  of that class, whose parent is the handle of the taprio command followed by a colon
  and \<open>q\<close>.
\<close>

theorem qdisc_gcl_command_layout:
  assumes "1 \<le> num_tc"
    and "cmds = create_tc_qdisc_gcl_command now interfaces gcl num_tc base_time map_str
                  queues_str handle_id flags txtime_delay delta"
    and "h = (case handle_id of None \<Rightarrow> ''100'' | Some x \<Rightarrow> x)"
  shows "length cmds = length interfaces * (1 + nat num_tc)
    \<and> (\<forall>k < length interfaces.
          (\<exists>rest. cmds ! (k * (1 + nat num_tc))
                    = ''tc qdisc replace dev '' @ interfaces ! k @ '' parent root handle '' @ h
                      @ '' taprio'' @ rest)
          \<and> (\<forall>q. 1 \<le> q \<and> q \<le> num_tc \<longrightarrow>
                cmds ! (k * (1 + nat num_tc) + nat q)
                  = ''tc qdisc replace dev '' @ interfaces ! k @ '' parent '' @ h @ '':''
                    @ py_str_int q @ '' etf skip_sock_check offload delta '' @ py_str_int delta
                    @ '' clockid CLOCK_TAI ''))"
proof -
  define bt where "bt = (case base_time of None \<Rightarrow> now | Some t \<Rightarrow> t)"
  define ms where "ms = (case map_str of None \<Rightarrow> ''0 1 2 3'' @ concat (replicate 12 '' 0'') | Some m \<Rightarrow> m)"
  define qs where "qs = (case queues_str of None \<Rightarrow> ''1@0 1@1 1@2 1@3'' | Some q \<Rightarrow> q)"
  define block where "block = (\<lambda>iface.
        taprio_command iface gcl num_tc bt ms qs h flags txtime_delay
        # map (\<lambda>q. etf_command iface h q delta) [1..num_tc])"
  define n where "n = 1 + nat num_tc"
  have cmds: "cmds = concat (map block interfaces)"
    unfolding assms(2) create_tc_qdisc_gcl_command_blocks block_def bt_def ms_def qs_def assms(3)
    by simp
  have uni: "\<forall>b \<in> set (map block interfaces). length b = n"
    using assms(1) by (simp add: block_def n_def)
  have len: "length cmds = length interfaces * n"
    using length_concat_uniform [OF uni] cmds by simp
  have nth: "\<And>k j. k < length interfaces \<Longrightarrow> j < n \<Longrightarrow> cmds ! (k * n + j) = block (interfaces ! k) ! j"
    using nth_concat_uniform [OF uni] cmds by simp
  have tap: "\<And>iface. \<exists>rest. taprio_command iface gcl num_tc bt ms qs h flags txtime_delay
      = ''tc qdisc replace dev '' @ iface @ '' parent root handle '' @ h @ '' taprio'' @ rest"
    by (simp add: taprio_command_def)
  have "\<forall>k < length interfaces.
          (\<exists>rest. cmds ! (k * n)
                    = ''tc qdisc replace dev '' @ interfaces ! k @ '' parent root handle '' @ h
                      @ '' taprio'' @ rest)
          \<and> (\<forall>q. 1 \<le> q \<and> q \<le> num_tc \<longrightarrow>
                cmds ! (k * n + nat q)
                  = ''tc qdisc replace dev '' @ interfaces ! k @ '' parent '' @ h @ '':''
                    @ py_str_int q @ '' etf skip_sock_check offload delta '' @ py_str_int delta
                    @ '' clockid CLOCK_TAI '')"
  proof (intro allI impI conjI)
    fix k
    assume k: "k < length interfaces"
    have "cmds ! (k * n + 0) = block (interfaces ! k) ! 0"
      using nth [OF k, of 0] by (simp add: n_def)
    then show "\<exists>rest. cmds ! (k * n)
                    = ''tc qdisc replace dev '' @ interfaces ! k @ '' parent root handle '' @ h
                      @ '' taprio'' @ rest"
      using tap [of "interfaces ! k"] by (simp add: block_def)
  next
    fix k q
    assume k: "k < length interfaces" and q: "1 \<le> q \<and> q \<le> num_tc"
    have j: "nat q < n"
      using q unfolding n_def by linarith
    have "block (interfaces ! k) ! nat q = map (\<lambda>q. etf_command (interfaces ! k) h q delta) [1..num_tc] ! (nat q - 1)"
      using q by (simp add: block_def nth_Cons')
    also have "\<dots> = etf_command (interfaces ! k) h ([1..num_tc] ! (nat q - 1)) delta"
    proof -
      have "length [1..num_tc] = nat num_tc"
        by simp
      moreover have "nat q - 1 < nat num_tc"
        using q by linarith
      ultimately have "nat q - 1 < length [1..num_tc]"
        by simp
      then show ?thesis
        by (rule nth_map)
    qed
    also have "\<dots> = etf_command (interfaces ! k) h q delta"
      using q upto_nth_from_one [of q num_tc] by simp
    finally show "cmds ! (k * n + nat q)
                  = ''tc qdisc replace dev '' @ interfaces ! k @ '' parent '' @ h @ '':''
                    @ py_str_int q @ '' etf skip_sock_check offload delta '' @ py_str_int delta
                    @ '' clockid CLOCK_TAI ''"
      using nth [OF k j] by (simp add: etf_command_def)
  qed
  with len show ?thesis
    unfolding n_def by blast
qed

theorem qdisc_gcl_command_layout_witness:
  "(1::int) \<le> 4
   \<and> create_tc_qdisc_gcl_command 0 [''enp170s0''] [''sched-entry S 0F 500000''] 4 (Some 1000)
         None None None ''0x1'' 200000 175000
       = [''tc qdisc replace dev enp170s0 parent root handle 100 taprio  num_tc 4 map 0 1 2 3 0 0 0 0 0 0 0 0 0 0 0 0  queues 1@0 1@1 1@2 1@3  base-time 1000  sched-entry S 0F 500000  flags 0x1 txtime-delay 200000  clockid CLOCK_TAI '',
          ''tc qdisc replace dev enp170s0 parent 100:1 etf skip_sock_check offload delta 175000 clockid CLOCK_TAI '',
          ''tc qdisc replace dev enp170s0 parent 100:2 etf skip_sock_check offload delta 175000 clockid CLOCK_TAI '',
          ''tc qdisc replace dev enp170s0 parent 100:3 etf skip_sock_check offload delta 175000 clockid CLOCK_TAI '',
          ''tc qdisc replace dev enp170s0 parent 100:4 etf skip_sock_check offload delta 175000 clockid CLOCK_TAI '']"
proof -
  define cmds where "cmds = create_tc_qdisc_gcl_command 0 [''enp170s0'']
      [''sched-entry S 0F 500000''] 4 (Some 1000) None None None ''0x1'' 200000 175000"
  have one: "(1::int) \<le> 4"
    by simp
  have d: "py_str_int 175000 = ''175000''" "py_str_int 200000 = ''200000''"
    "py_str_int 1000 = ''1000''"
    "py_str_int 1 = ''1''" "py_str_int 2 = ''2''" "py_str_int 3 = ''3''" "py_str_int 4 = ''4''"
    by (simp_all add: number_text_simps)
  from qdisc_gcl_command_layout [OF one cmds_def refl]
  have len: "length cmds = 5"
    and etf: "\<forall>q. 1 \<le> q \<and> q \<le> 4 \<longrightarrow>
                cmds ! (0 * (1 + nat 4) + nat q)
                  = ''tc qdisc replace dev '' @ [''enp170s0''] ! 0 @ '' parent '' @ ''100'' @ '':''
                    @ py_str_int q @ '' etf skip_sock_check offload delta '' @ py_str_int 175000
                    @ '' clockid CLOCK_TAI ''"
    by simp_all
  have e1: "cmds ! 1 = ''tc qdisc replace dev enp170s0 parent 100:1 etf skip_sock_check offload delta 175000 clockid CLOCK_TAI ''"
    using etf [rule_format, of 1] by (simp add: d)
  have e2: "cmds ! 2 = ''tc qdisc replace dev enp170s0 parent 100:2 etf skip_sock_check offload delta 175000 clockid CLOCK_TAI ''"
    using etf [rule_format, of 2] by (simp add: d eval_nat_numeral)
  have e3: "cmds ! 3 = ''tc qdisc replace dev enp170s0 parent 100:3 etf skip_sock_check offload delta 175000 clockid CLOCK_TAI ''"
    using etf [rule_format, of 3] by (simp add: d eval_nat_numeral)
  have e4: "cmds ! 4 = ''tc qdisc replace dev enp170s0 parent 100:4 etf skip_sock_check offload delta 175000 clockid CLOCK_TAI ''"
    using etf [rule_format, of 4] by (simp add: d eval_nat_numeral)
  have u: "[1..4] = [1, 2, 3, (4::int)]"
    by (simp add: upto.simps)
  have e0: "cmds ! 0 = ''tc qdisc replace dev enp170s0 parent root handle 100 taprio  num_tc 4 map 0 1 2 3 0 0 0 0 0 0 0 0 0 0 0 0  queues 1@0 1@1 1@2 1@3  base-time 1000  sched-entry S 0F 500000  flags 0x1 txtime-delay 200000  clockid CLOCK_TAI ''"
    unfolding cmds_def
    by (simp add: create_tc_qdisc_gcl_command_def taprio_command_def u d eval_nat_numeral Let_def)
  have "cmds = [cmds ! 0, cmds ! 1, cmds ! 2, cmds ! 3, cmds ! 4]"
    using len by (auto simp: list_eq_iff_nth_eq less_Suc_eq eval_nat_numeral)
  then show ?thesis
    using e0 e1 e2 e3 e4 unfolding cmds_def by simp
qed
subsection \<open>Flow classification commands\<close>

lemma foldM_nested:
  "foldM (\<lambda>(k, xs) s. foldM f xs s) m s = foldM f (concat (map snd m)) s"
proof (induction m arbitrary: s)
  case Nil
  then show ?case by simp
next
  case (Cons p m)
  obtain k xs where p: "p = (k, xs)"
    by (cases p)
  show ?case
    using Cons.IH by (simp add: p foldM_append split: option.splits)
qed

lemma key_norm_truthy: "key_norm a = key_norm b \<Longrightarrow> truthy a = truthy b"
  by (cases a; cases b) (auto split: if_splits)

lemma first_seen_append:
  assumes "n < length ts"
  shows "first_seen (ts @ us) n = first_seen ts n"
  using assms by (simp add: first_seen_def nth_append)

lemma clsact_block_append:
  assumes "n < length ts"
  shows "clsact_block ce (ts @ us) n = clsact_block ce ts n"
  using assms by (simp add: clsact_block_def first_seen_append nth_append)

lemma blocks_snoc:
  "concat (map (\<lambda>n. clsact_block ce (ts @ [t]) n @ filter_block ((ts @ [t]) ! n))
             [0..<length (ts @ [t])])
   = concat (map (\<lambda>n. clsact_block ce ts n @ filter_block (ts ! n)) [0..<length ts])
     @ clsact_block ce (ts @ [t]) (length ts) @ filter_block t"
proof -
  have eq: "map (\<lambda>n. clsact_block ce (ts @ [t]) n @ filter_block ((ts @ [t]) ! n)) [0..<length ts]
        = map (\<lambda>n. clsact_block ce ts n @ filter_block (ts ! n)) [0..<length ts]"
    by (rule map_cong) (simp_all add: clsact_block_append nth_append)
  have "concat (map (\<lambda>n. clsact_block ce (ts @ [t]) n @ filter_block ((ts @ [t]) ! n))
             [0..<length (ts @ [t])])
        = concat (map (\<lambda>n. clsact_block ce (ts @ [t]) n @ filter_block ((ts @ [t]) ! n))
             [0..<length ts])
          @ clsact_block ce (ts @ [t]) (length ts) @ filter_block t"
    by simp
  then show ?thesis
    unfolding eq .
qed

lemma first_seen_last:
  "first_seen (ts @ [t]) (length ts)
   \<longleftrightarrow> key_norm (talker_interface t) \<notin> key_norm ` talker_interface ` set ts"
proof -
  have "first_seen (ts @ [t]) (length ts)
        \<longleftrightarrow> (\<forall>j < length ts. key_norm (talker_interface (ts ! j)) \<noteq> key_norm (talker_interface t))"
    by (simp add: first_seen_def nth_append)
  also have "\<dots> \<longleftrightarrow> (\<forall>u \<in> set ts. key_norm (talker_interface u) \<noteq> key_norm (talker_interface t))"
    by (metis in_set_conv_nth)
  also have "\<dots> \<longleftrightarrow> key_norm (talker_interface t) \<notin> key_norm ` talker_interface ` set ts"
    by (auto simp: image_iff)
  finally show ?thesis .
qed

lemma truthy_key_image:
  assumes "truthy i"
  shows "key_norm i \<in> key_norm ` (S \<inter> Collect truthy) \<longleftrightarrow> key_norm i \<in> key_norm ` S"
proof
  assume "key_norm i \<in> key_norm ` (S \<inter> Collect truthy)"
  then show "key_norm i \<in> key_norm ` S"
    by blast
next
  assume "key_norm i \<in> key_norm ` S"
  then obtain x where x: "x \<in> S" "key_norm i = key_norm x"
    by blast
  then have "truthy x"
    using assms key_norm_truthy by metis
  then show "key_norm i \<in> key_norm ` (S \<inter> Collect truthy)"
    using x by blast
qed

text \<open>
  The loop of the time-aware generator over the talkers \<open>ts\<close> from the empty state:
  the commands are the expected blocks, and the keys of \<^verbatim>\<open>processed_ifaces\<close> are
  those of the true interface names of \<open>ts\<close>.
\<close>

lemma time_aware_loop:
  assumes "foldM (time_aware_talker_step ce) ts ([], []) = Some (cmds, proc)"
  shows "cmds = concat (map (\<lambda>n. clsact_block ce ts n @ filter_block (ts ! n)) [0..<length ts])
    \<and> key_norm ` set proc = key_norm ` (talker_interface ` set ts \<inter> Collect truthy)"
  using assms
proof (induction ts arbitrary: cmds proc rule: rev_induct)
  case Nil
  then show ?case by simp
next
  case (snoc t ts)
  from snoc.prems obtain c1 p1
    where run: "foldM (time_aware_talker_step ce) ts ([], []) = Some (c1, p1)"
      and step: "time_aware_talker_step ce t (c1, p1) = Some (cmds, proc)"
    by (auto simp: foldM_append split: option.splits)
  note ih = snoc.IH [OF run]
  define i where "i = talker_interface t"
  define S where "S = talker_interface ` set ts"
  have c1: "c1 = concat (map (\<lambda>n. clsact_block ce ts n @ filter_block (ts ! n)) [0..<length ts])"
    using ih by simp
  have p1: "key_norm ` set p1 = key_norm ` (S \<inter> Collect truthy)"
    using ih by (simp add: S_def)
  have S': "talker_interface ` set (ts @ [t]) = insert i S"
    by (simp add: S_def i_def)
  show ?case
  proof (cases "truthy i")
    case False
    then have same: "cmds = c1" "proc = p1"
      using step by (simp_all add: time_aware_talker_step_def i_def talker_interface_def Let_def)
    have "clsact_block ce (ts @ [t]) (length ts) = []" "filter_block t = []"
      using False by (simp_all add: clsact_block_def filter_block_def i_def)
    then have a: "cmds = concat (map (\<lambda>n. clsact_block ce (ts @ [t]) n @ filter_block ((ts @ [t]) ! n))
             [0..<length (ts @ [t])])"
      unfolding blocks_snoc using c1 same by simp
    have "insert i S \<inter> Collect truthy = S \<inter> Collect truthy"
      using False by blast
    then have b: "key_norm ` set proc = key_norm ` (talker_interface ` set (ts @ [t]) \<inter> Collect truthy)"
      unfolding S' using p1 same by simp
    show ?thesis
      using a b by blast
  next
    case True
    from step True obtain nums where nums: "talker_numbers t = Some nums"
      by (cases "talker_numbers t")
         (simp_all add: time_aware_talker_step_def i_def talker_interface_def Let_def)
    have h: "hashable i"
      using step True nums
      by (cases "hashable i")
         (simp_all add: time_aware_talker_step_def i_def talker_interface_def Let_def)
    have fb: "filter_block t = [flower_filter_command i t nums]"
      using True nums by (simp add: filter_block_def i_def)
    have test: "(\<exists>p \<in> set p1. key_norm p = key_norm i) \<longleftrightarrow> key_norm i \<in> key_norm ` S"
    proof -
      have "(\<exists>p \<in> set p1. key_norm p = key_norm i) \<longleftrightarrow> key_norm i \<in> key_norm ` set p1"
        by (metis image_iff)
      then show ?thesis
        unfolding p1 truthy_key_image [OF True] .
    qed
    have fs: "first_seen (ts @ [t]) (length ts) \<longleftrightarrow> \<not> (\<exists>p \<in> set p1. key_norm p = key_norm i)"
      unfolding test first_seen_last by (simp add: i_def S_def)
    have ins: "insert i S \<inter> Collect truthy = insert i (S \<inter> Collect truthy)"
      using True by blast
    show ?thesis
    proof (cases "\<exists>p \<in> set p1. key_norm p = key_norm i")
      case seen: True
      then have res: "cmds = c1 @ [flower_filter_command i t nums]" "proc = p1"
        using step True nums h
        by (simp_all add: time_aware_talker_step_def i_def talker_interface_def Let_def)
      have "clsact_block ce (ts @ [t]) (length ts) = []"
        using fs seen by (simp add: clsact_block_def)
      then have a: "cmds = concat (map (\<lambda>n. clsact_block ce (ts @ [t]) n @ filter_block ((ts @ [t]) ! n))
             [0..<length (ts @ [t])])"
        unfolding blocks_snoc using c1 res fb by simp
      have "key_norm i \<in> key_norm ` (S \<inter> Collect truthy)"
        using seen test truthy_key_image [OF True] by blast
      then have "key_norm ` insert i (S \<inter> Collect truthy) = key_norm ` (S \<inter> Collect truthy)"
        by (simp add: insert_absorb)
      then have b: "key_norm ` set proc = key_norm ` (talker_interface ` set (ts @ [t]) \<inter> Collect truthy)"
        unfolding S' ins using p1 res by simp
      show ?thesis
        using a b by blast
    next
      case fresh: False
      then have res:
        "cmds = (if \<not> ce i then c1 @ [''tc qdisc add dev '' @ py_str i @ '' clsact''] else c1)
                @ [flower_filter_command i t nums]"
        "proc = p1 @ [i]"
        using step True nums h
        by (auto simp: time_aware_talker_step_def i_def talker_interface_def Let_def)
      have "clsact_block ce (ts @ [t]) (length ts)
            = (if \<not> ce i then [''tc qdisc add dev '' @ py_str i @ '' clsact''] else [])"
        using fs fresh True by (simp add: clsact_block_def i_def)
      then have a: "cmds = concat (map (\<lambda>n. clsact_block ce (ts @ [t]) n @ filter_block ((ts @ [t]) ! n))
             [0..<length (ts @ [t])])"
        unfolding blocks_snoc using c1 res fb by simp
      have b: "key_norm ` set proc = key_norm ` (talker_interface ` set (ts @ [t]) \<inter> Collect truthy)"
        unfolding S' ins using p1 res by simp
      show ?thesis
        using a b by blast
    qed
  qed
qed

lemma non_time_aware_loop:
  assumes "foldM non_time_aware_talker_step ts acc = Some cmds"
  shows "cmds = acc @ concat (map filter_block ts)"
  using assms
proof (induction ts arbitrary: acc)
  case Nil
  then show ?case by simp
next
  case (Cons t ts)
  from Cons.prems obtain c1 where step: "non_time_aware_talker_step t acc = Some c1"
    and rest: "foldM non_time_aware_talker_step ts c1 = Some cmds"
    by (auto split: option.splits)
  have "c1 = acc @ filter_block t"
  proof (cases "truthy (talker_interface t)")
    case False
    then show ?thesis
      using step by (simp add: non_time_aware_talker_step_def filter_block_def talker_interface_def)
  next
    case True
    from step True obtain nums where "talker_numbers t = Some nums"
      by (cases "talker_numbers t")
         (simp_all add: non_time_aware_talker_step_def talker_interface_def)
    then show ?thesis
      using step True
      by (simp add: non_time_aware_talker_step_def filter_block_def talker_interface_def)
  qed
  then show ?case
    using Cons.IH [OF rest] by simp
qed

lemma strip_is_take: "\<exists>k. strip s = take k (dropWhile is_space s)"
proof -
  define u where "u = dropWhile is_space s"
  have "dropWhile is_space (rev u) = drop (length (takeWhile is_space (rev u))) (rev u)"
    by (rule dropWhile_eq_drop)
  then have "rev (dropWhile is_space (rev u)) = take (length u - length (takeWhile is_space (rev u))) u"
    by (simp add: drop_rev)
  then show ?thesis
    unfolding strip_def u_def by blast
qed

lemma strip_filter_not_qdisc:
  "strip (''tc filter add dev '' @ r) \<noteq> ''tc qdisc add dev '' @ r'"
proof
  assume eq: "strip (''tc filter add dev '' @ r) = ''tc qdisc add dev '' @ r'"
  have "dropWhile is_space (''tc filter add dev '' @ r) = ''tc filter add dev '' @ r"
    by (simp add: is_space_def)
  with strip_is_take [of "''tc filter add dev '' @ r"] obtain k
    where k: "strip (''tc filter add dev '' @ r) = take k (''tc filter add dev '' @ r)"
    by auto
  have "length (take k (''tc filter add dev '' @ r)) = length (''tc qdisc add dev '' @ r')"
    using eq k by simp
  then have "3 < k"
    by simp
  then have "take k (''tc filter add dev '' @ r) ! 3 = (''tc filter add dev '' @ r) ! 3"
    by simp
  then have "(''tc qdisc add dev '' @ r') ! 3 = (''tc filter add dev '' @ r) ! 3"
    using eq k by simp
  then show False
    by simp
qed

lemma flower_filter_command_prefix:
  "\<exists>r. flower_filter_command i t nums = strip (''tc filter add dev '' @ r)"
proof -
  obtain a b c where nums: "nums = (a, b, c)"
    by (cases nums)
  define l3 where "l3 = get_ip_protocol_and_ports_filter_configuration a b c"
  define c0 where "c0 = ''tc filter add dev '' @ py_str i @ '' egress protocol ip flower ''"
  define c1 where "c1 = (if truthy (dict_get t ''source_mac'' NNone)
      then c0 @ ''src_mac '' @ py_str (dict_get t ''source_mac'' NNone) @ '' '' else c0)"
  define c2 where "c2 = (if truthy (dict_get t ''destination_mac'' NNone)
      then c1 @ ''dst_mac '' @ py_str (dict_get t ''destination_mac'' NNone) @ '' '' else c1)"
  define c3 where "c3 = (if truthy (dict_get t ''source_ip'' NNone)
      then c2 @ ''src_ip '' @ py_str (dict_get t ''source_ip'' NNone) @ '' '' else c2)"
  define c4 where "c4 = (if truthy (dict_get t ''destination_ip'' NNone)
      then c3 @ ''dst_ip '' @ py_str (dict_get t ''destination_ip'' NNone) @ '' '' else c3)"
  define c5 where "c5 = (if l3 \<noteq> [] then c4 @ l3 @ '' '' else c4)"
  define c6 where "c6 = c5 @ ''action vlan push id '' @ py_str (dict_get t ''vlan_id'' NNone)
      @ '' protocol 802.1Q priority '' @ py_str (dict_get t ''vlan_priority'' NNone)
      @ '' pipe action skbedit priority '' @ py_str (dict_get t ''vlan_priority'' NNone)"
  have e0: "\<exists>r. c0 = ''tc filter add dev '' @ r"
    by (simp add: c0_def)
  have ext: "\<And>x y. \<exists>r. x = ''tc filter add dev '' @ r \<Longrightarrow> \<exists>r. x @ y = ''tc filter add dev '' @ r"
    by (metis append.assoc)
  have e1: "\<exists>r. c1 = ''tc filter add dev '' @ r"
    unfolding c1_def using e0 ext by presburger
  have e2: "\<exists>r. c2 = ''tc filter add dev '' @ r"
    unfolding c2_def using e1 ext by presburger
  have e3: "\<exists>r. c3 = ''tc filter add dev '' @ r"
    unfolding c3_def using e2 ext by presburger
  have e4: "\<exists>r. c4 = ''tc filter add dev '' @ r"
    unfolding c4_def using e3 ext by presburger
  have e5: "\<exists>r. c5 = ''tc filter add dev '' @ r"
    unfolding c5_def using e4 ext by presburger
  have e6: "\<exists>r. c6 = ''tc filter add dev '' @ r"
    unfolding c6_def using e5 ext by presburger
  have "flower_filter_command i t nums = strip c6"
    unfolding c6_def c5_def c4_def c3_def c2_def c1_def c0_def l3_def
    by (simp add: flower_filter_command_def nums Let_def)
  then show ?thesis
    using e6 by metis
qed

lemma filter_block_no_clsact:
  "''tc qdisc add dev '' @ i @ '' clsact'' \<notin> set (filter_block t)"
proof (cases "truthy (talker_interface t)")
  case False
  then show ?thesis
    by (simp add: filter_block_def)
next
  case True
  show ?thesis
  proof (cases "talker_numbers t")
    case None
    then show ?thesis
      using True by (simp add: filter_block_def)
  next
    case (Some nums)
    obtain r where "flower_filter_command (talker_interface t) t nums = strip (''tc filter add dev '' @ r)"
      using flower_filter_command_prefix by blast
    then have "flower_filter_command (talker_interface t) t nums \<noteq> ''tc qdisc add dev '' @ (i @ '' clsact'')"
      using strip_filter_not_qdisc [of r "i @ '' clsact''"] by simp
    then have "''tc qdisc add dev '' @ i @ '' clsact'' \<noteq> flower_filter_command (talker_interface t) t nums"
      by (rule not_sym)
    then show ?thesis
      using True Some by (simp add: filter_block_def)
  qed
qed

lemma first_seen_unique:
  assumes "first_seen ts n" and "first_seen ts n'"
    and "key_norm (talker_interface (ts ! n)) = key_norm (talker_interface (ts ! n'))"
  shows "n = n'"
proof (rule ccontr)
  assume "n \<noteq> n'"
  then consider "n < n'" | "n' < n"
    by linarith
  then show False
  proof cases
    case 1
    then show False
      using assms(2,3) by (simp add: first_seen_def)
  next
    case 2
    then show False
      using assms(1,3) by (auto simp: first_seen_def)
  qed
qed

lemma length_filter_unique:
  assumes "distinct xs" and "\<And>x y. x \<in> set xs \<Longrightarrow> y \<in> set xs \<Longrightarrow> Q x \<Longrightarrow> Q y \<Longrightarrow> x = y"
  shows "length (filter Q xs) \<le> 1"
proof -
  have d: "distinct (filter Q xs)"
    using assms(1) by simp
  have "card (set (filter Q xs)) \<le> 1"
  proof (rule card_le_Suc0_iff_eq [THEN iffD2, unfolded One_nat_def [symmetric]])
    show "finite (set (filter Q xs))"
      by simp
    show "\<forall>a \<in> set (filter Q xs). \<forall>b \<in> set (filter Q xs). a = b"
      using assms(2) by auto
  qed
  then show ?thesis
    using distinct_card [OF d] by simp
qed

lemma filter_concat_indicator:
  assumes "\<And>n. n \<in> set ns \<Longrightarrow> filter P (g n) = (if Q n then [c] else [])"
  shows "length (filter P (concat (map g ns))) = length (filter Q ns)"
  using assms by (induction ns) simp_all

text \<open>
  When the interface names are strings, the command that creates \<open>clsact\<close> on an
  interface occurs at most once among the expected blocks.
\<close>

lemma clsact_at_most_once:
  assumes "\<forall>t \<in> set ts. \<exists>s. talker_interface t = NStr s"
  shows "length (filter (\<lambda>c. c = ''tc qdisc add dev '' @ i @ '' clsact'')
                   (concat (map (\<lambda>n. clsact_block ce ts n @ filter_block (ts ! n)) [0..<length ts])))
         \<le> 1"
proof -
  let ?c = "''tc qdisc add dev '' @ i @ '' clsact''"
  let ?Q = "\<lambda>n. talker_interface (ts ! n) = NStr i \<and> i \<noteq> [] \<and> first_seen ts n \<and> \<not> ce (NStr i)"
  have blk: "\<And>n. n \<in> set [0..<length ts] \<Longrightarrow>
      filter (\<lambda>c. c = ?c) (clsact_block ce ts n @ filter_block (ts ! n)) = (if ?Q n then [?c] else [])"
  proof -
    fix n
    assume "n \<in> set [0..<length ts]"
    then have "ts ! n \<in> set ts"
      by simp
    with assms obtain s where s: "talker_interface (ts ! n) = NStr s"
      by blast
    have f: "filter (\<lambda>c. c = ?c) (filter_block (ts ! n)) = []"
      using filter_block_no_clsact [of i "ts ! n"] by (auto simp: filter_empty_conv)
    have g: "filter (\<lambda>c. c = ?c) (clsact_block ce ts n) = (if ?Q n then [?c] else [])"
    proof (cases "truthy (NStr s) \<and> first_seen ts n \<and> \<not> ce (NStr s)")
      case False
      then have "clsact_block ce ts n = []"
        using s by (auto simp: clsact_block_def Let_def)
      moreover have "\<not> ?Q n"
        using False s by auto
      ultimately show ?thesis
        by simp
    next
      case True
      then have cb: "clsact_block ce ts n = [''tc qdisc add dev '' @ s @ '' clsact'']"
        using s by (simp add: clsact_block_def py_str_def Let_def)
      have "?Q n \<longleftrightarrow> s = i"
        using True s by auto
      then show ?thesis
        unfolding cb by auto
    qed
    show "filter (\<lambda>c. c = ?c) (clsact_block ce ts n @ filter_block (ts ! n)) = (if ?Q n then [?c] else [])"
      unfolding filter_append f g by simp
  qed
  have "length (filter (\<lambda>c. c = ?c)
          (concat (map (\<lambda>n. clsact_block ce ts n @ filter_block (ts ! n)) [0..<length ts])))
        = length (filter ?Q [0..<length ts])"
    using blk by (rule filter_concat_indicator)
  moreover have "length (filter ?Q [0..<length ts]) \<le> 1"
  proof (rule length_filter_unique)
    show "distinct [0..<length ts]"
      by simp
  next
    fix x y
    assume "?Q x" "?Q y"
    then show "x = y"
      using first_seen_unique [of ts x y] by simp
  qed
  ultimately show ?thesis
    by simp
qed

text \<open>
  C4, as the code has it. The time-aware generator emits, for each talker with an
  interface name and in iteration order, the filter command of the talker, preceded
  by \<open>tc qdisc add dev <interface> clsact\<close> exactly when the talker is the first one
  of its interface in the call and no \<open>clsact\<close> is detected on it; with string
  interface names that command occurs at most once per interface. The generator for
  talkers that are not time aware emits the filter commands only, and none of its
  commands creates \<open>clsact\<close>.
\<close>

theorem filter_generators_clsact:
  assumes "create_tc_filter_commands_for_time_aware_talkers clsact_exists m = Some cmds"
    and "create_tc_filter_commands_for_non_time_aware_talkers m2 = Some cmds2"
  shows "cmds = concat (map (\<lambda>n. clsact_block clsact_exists (all_talkers m) n
                              @ filter_block (all_talkers m ! n))
                        [0..<length (all_talkers m)])
    \<and> ((\<forall>t \<in> set (all_talkers m). \<exists>s. talker_interface t = NStr s) \<longrightarrow>
         (\<forall>i. length (filter (\<lambda>c. c = ''tc qdisc add dev '' @ i @ '' clsact'') cmds) \<le> 1))
    \<and> cmds2 = concat (map filter_block (all_talkers m2))
    \<and> (\<forall>i. ''tc qdisc add dev '' @ i @ '' clsact'' \<notin> set cmds2)"
proof -
  from assms(1) obtain proc
    where "foldM (time_aware_talker_step clsact_exists) (all_talkers m) ([], []) = Some (cmds, proc)"
    by (auto simp: create_tc_filter_commands_for_time_aware_talkers_def foldM_nested all_talkers_def)
  then have a: "cmds = concat (map (\<lambda>n. clsact_block clsact_exists (all_talkers m) n
                              @ filter_block (all_talkers m ! n))
                        [0..<length (all_talkers m)])"
    using time_aware_loop by blast
  have b: "(\<forall>t \<in> set (all_talkers m). \<exists>s. talker_interface t = NStr s) \<longrightarrow>
         (\<forall>i. length (filter (\<lambda>c. c = ''tc qdisc add dev '' @ i @ '' clsact'') cmds) \<le> 1)"
    unfolding a using clsact_at_most_once by blast
  have "foldM non_time_aware_talker_step (all_talkers m2) [] = Some cmds2"
    using assms(2)
    by (simp add: create_tc_filter_commands_for_non_time_aware_talkers_def foldM_nested all_talkers_def)
  then have c: "cmds2 = concat (map filter_block (all_talkers m2))"
    using non_time_aware_loop by fastforce
  have d: "\<forall>i. ''tc qdisc add dev '' @ i @ '' clsact'' \<notin> set cmds2"
    unfolding c using filter_block_no_clsact by auto
  show ?thesis
    using a b c d by blast
qed

lemma flower_filter_command_flat:
  "flower_filter_command i t (a, b, c) =
     strip (''tc filter add dev '' @ py_str i @ '' egress protocol ip flower ''
       @ (if truthy (dict_get t ''source_mac'' NNone)
          then ''src_mac '' @ py_str (dict_get t ''source_mac'' NNone) @ '' '' else [])
       @ (if truthy (dict_get t ''destination_mac'' NNone)
          then ''dst_mac '' @ py_str (dict_get t ''destination_mac'' NNone) @ '' '' else [])
       @ (if truthy (dict_get t ''source_ip'' NNone)
          then ''src_ip '' @ py_str (dict_get t ''source_ip'' NNone) @ '' '' else [])
       @ (if truthy (dict_get t ''destination_ip'' NNone)
          then ''dst_ip '' @ py_str (dict_get t ''destination_ip'' NNone) @ '' '' else [])
       @ (if get_ip_protocol_and_ports_filter_configuration a b c \<noteq> []
          then get_ip_protocol_and_ports_filter_configuration a b c @ '' '' else [])
       @ ''action vlan push id '' @ py_str (dict_get t ''vlan_id'' NNone)
       @ '' protocol 802.1Q priority '' @ py_str (dict_get t ''vlan_priority'' NNone)
       @ '' pipe action skbedit priority '' @ py_str (dict_get t ''vlan_priority'' NNone))"
  by (simp add: flower_filter_command_def Let_def)

lemma minimal_data_commands:
  "create_tc_filter_commands_for_non_time_aware_talkers minimal_data
     = Some [''tc filter add dev eth0 egress protocol ip flower action vlan push id 300 protocol 802.1Q priority 2 pipe action skbedit priority 2'']"
proof -
  let ?t = "[(''interface_name'', NStr ''eth0''), (''vlan_id'', NInt 300), (''vlan_priority'', NInt 2)]"
  have n: "talker_numbers ?t = Some (65535, 0, 0)"
    by (simp add: talker_numbers_def dict_get_def)
  have l: "get_ip_protocol_and_ports_filter_configuration 65535 0 0 = []"
    by (simp add: get_ip_protocol_and_ports_filter_configuration_def)
  have f: "flower_filter_command (NStr ''eth0'') ?t (65535, 0, 0)
      = ''tc filter add dev eth0 egress protocol ip flower action vlan push id 300 protocol 802.1Q priority 2 pipe action skbedit priority 2''"
    unfolding flower_filter_command_flat l
    by (simp add: dict_get_def py_str_def number_text_simps strip_def is_space_def)
  have i: "dict_get ?t ''interface_name'' NNone = NStr ''eth0''"
    by (simp add: dict_get_def)
  show ?thesis
    by (simp add: create_tc_filter_commands_for_non_time_aware_talkers_def minimal_data_def
        non_time_aware_talker_step_def i n f)
qed

lemma example_time_aware_commands:
  "create_tc_filter_commands_for_time_aware_talkers (\<lambda>interface. False) example_time_aware_info
     = Some [''tc qdisc add dev enp170s0 clsact'',
             ''tc filter add dev enp170s0 egress protocol ip flower src_mac aa:bb:cc:dd:ee:ff action vlan push id 22 protocol 802.1Q priority 3 pipe action skbedit priority 3'',
             ''tc filter add dev enp170s0 egress protocol ip flower action vlan push id 33 protocol 802.1Q priority 4 pipe action skbedit priority 4'']"
proof -
  let ?t1 = "[(''interface_name'', NStr ''enp170s0''), (''source_mac'', NStr ''aa:bb:cc:dd:ee:ff''),
          (''vlan_id'', NInt 22), (''vlan_priority'', NInt 3)]"
  let ?t2 = "[(''interface_name'', NStr ''enp170s0''),
          (''vlan_id'', NInt 33), (''vlan_priority'', NInt 4)]"
  have n: "talker_numbers ?t1 = Some (65535, 0, 0)" "talker_numbers ?t2 = Some (65535, 0, 0)"
    by (simp_all add: talker_numbers_def dict_get_def)
  have l: "get_ip_protocol_and_ports_filter_configuration 65535 0 0 = []"
    by (simp add: get_ip_protocol_and_ports_filter_configuration_def)
  have f1: "flower_filter_command (NStr ''enp170s0'') ?t1 (65535, 0, 0)
      = ''tc filter add dev enp170s0 egress protocol ip flower src_mac aa:bb:cc:dd:ee:ff action vlan push id 22 protocol 802.1Q priority 3 pipe action skbedit priority 3''"
    unfolding flower_filter_command_flat l
    by (simp add: dict_get_def py_str_def number_text_simps strip_def is_space_def)
  have f2: "flower_filter_command (NStr ''enp170s0'') ?t2 (65535, 0, 0)
      = ''tc filter add dev enp170s0 egress protocol ip flower action vlan push id 33 protocol 802.1Q priority 4 pipe action skbedit priority 4''"
    unfolding flower_filter_command_flat l
    by (simp add: dict_get_def py_str_def number_text_simps strip_def is_space_def)
  have i: "dict_get ?t1 ''interface_name'' NNone = NStr ''enp170s0''"
    "dict_get ?t2 ''interface_name'' NNone = NStr ''enp170s0''"
    by (simp_all add: dict_get_def)
  show ?thesis
    by (simp add: create_tc_filter_commands_for_time_aware_talkers_def example_time_aware_info_def
        time_aware_talker_step_def i n f1 f2 py_str_def)
qed

theorem filter_generators_clsact_witness:
  "create_tc_filter_commands_for_time_aware_talkers (\<lambda>interface. False) example_time_aware_info
     = Some [''tc qdisc add dev enp170s0 clsact'',
             ''tc filter add dev enp170s0 egress protocol ip flower src_mac aa:bb:cc:dd:ee:ff action vlan push id 22 protocol 802.1Q priority 3 pipe action skbedit priority 3'',
             ''tc filter add dev enp170s0 egress protocol ip flower action vlan push id 33 protocol 802.1Q priority 4 pipe action skbedit priority 4'']
   \<and> create_tc_filter_commands_for_non_time_aware_talkers minimal_data
     = Some [''tc filter add dev eth0 egress protocol ip flower action vlan push id 300 protocol 802.1Q priority 2 pipe action skbedit priority 2'']
   \<and> clsact_block (\<lambda>interface. False) (all_talkers example_time_aware_info) 0
     = [''tc qdisc add dev enp170s0 clsact'']
   \<and> clsact_block (\<lambda>interface. False) (all_talkers example_time_aware_info) 1 = []
   \<and> length (filter (\<lambda>c. c = ''tc qdisc add dev '' @ ''enp170s0'' @ '' clsact'')
         [''tc qdisc add dev enp170s0 clsact'',
          ''tc filter add dev enp170s0 egress protocol ip flower src_mac aa:bb:cc:dd:ee:ff action vlan push id 22 protocol 802.1Q priority 3 pipe action skbedit priority 3'',
          ''tc filter add dev enp170s0 egress protocol ip flower action vlan push id 33 protocol 802.1Q priority 4 pipe action skbedit priority 4'']) \<le> 1"
proof -
  note t = filter_generators_clsact [OF example_time_aware_commands minimal_data_commands]
  have names: "\<forall>t \<in> set (all_talkers example_time_aware_info). \<exists>s. talker_interface t = NStr s"
    by (simp add: all_talkers_def example_time_aware_info_def talker_interface_def dict_get_def)
  have once: "length (filter (\<lambda>c. c = ''tc qdisc add dev '' @ ''enp170s0'' @ '' clsact'')
         [''tc qdisc add dev enp170s0 clsact'',
          ''tc filter add dev enp170s0 egress protocol ip flower src_mac aa:bb:cc:dd:ee:ff action vlan push id 22 protocol 802.1Q priority 3 pipe action skbedit priority 3'',
          ''tc filter add dev enp170s0 egress protocol ip flower action vlan push id 33 protocol 802.1Q priority 4 pipe action skbedit priority 4'']) \<le> 1"
    using t names by blast
  have b0: "clsact_block (\<lambda>interface. False) (all_talkers example_time_aware_info) 0
     = [''tc qdisc add dev enp170s0 clsact'']"
    by (simp add: clsact_block_def first_seen_def all_talkers_def example_time_aware_info_def
        talker_interface_def dict_get_def py_str_def)
  have b1: "clsact_block (\<lambda>interface. False) (all_talkers example_time_aware_info) 1 = []"
    by (simp add: clsact_block_def first_seen_def all_talkers_def example_time_aware_info_def
        talker_interface_def dict_get_def py_str_def)
  show ?thesis
    using example_time_aware_commands minimal_data_commands b0 b1 once by blast
qed

text \<open>
  The claim as written fails for the generator of talkers that are not time aware:
  for the talker map of the repository's test, on an interface where no \<open>clsact\<close>
  can have been detected, the only command is the filter command.
\<close>

theorem non_time_aware_clsact_counterexample:
  "create_tc_filter_commands_for_non_time_aware_talkers minimal_data
     = Some [''tc filter add dev eth0 egress protocol ip flower action vlan push id 300 protocol 802.1Q priority 2 pipe action skbedit priority 2'']
   \<and> ''tc qdisc add dev eth0 clsact''
       \<notin> set [''tc filter add dev eth0 egress protocol ip flower action vlan push id 300 protocol 802.1Q priority 2 pipe action skbedit priority 2'']"
  using minimal_data_commands by simp
end
